(* ===== verification/Prelude.thy ===== *)
theory Prelude
  imports Main
begin

text \<open>
  Shared material of the development: the collections of rules the component proofs
  use, results in the style of Go's \<open>(value, error)\<close> pairs, and generic lemmas on
  lists and maps.

  A Go function that returns \<open>(T, error)\<close> is modelled by the sum type
  \<open>'e + 'a\<close>: \<open>Inl\<close> carries the error, \<open>Inr\<close> the value. A function with an effect also
  takes and returns the state. A pointer that may be nil is an \<open>option\<close>.
\<close>

named_theorems go_defs \<open>definitions of the modelled Go library routines\<close>
named_theorems path_tables \<open>the tables of paths the plugin registers\<close>

section \<open>Results\<close>

type_synonym ('s, 'e, 'a) action = "'s \<Rightarrow> ('e + 'a) \<times> 's"

definition isOk :: "'e + 'a \<Rightarrow> bool" where
  "isOk r = (case r of Inl _ \<Rightarrow> False | Inr _ \<Rightarrow> True)"

lemma isOk_simps [simp]: "isOk (Inr v)" "\<not> isOk (Inl e)"
  by (simp_all add: isOk_def)

lemma isOk_iff: "isOk r \<longleftrightarrow> (\<exists>v. r = Inr v)"
  by (cases r) auto

section \<open>Lists\<close>

lemma list_all_weaken: "list_all P xs \<Longrightarrow> (\<And>x. P x \<Longrightarrow> Q x) \<Longrightarrow> list_all Q xs"
  by (auto simp: list_all_iff)

end
