(* ===== verification/Go_Strings.thy ===== *)
theory Go_Strings
  imports Prelude
begin

text \<open>
  The routines of Go's package \<^verbatim>\<open>strings\<close> and \<^verbatim>\<open>unicode/utf8\<close> that the
  plugin calls. A Go string is a sequence of bytes, so it is a HOL \<^typ>\<open>string\<close>, whose
  characters are bytes.
\<close>

section \<open>Bytes\<close>

definition byte :: "char \<Rightarrow> nat" where
  "byte c = of_char c"

definition is_ascii :: "char \<Rightarrow> bool" where
  "is_ascii c = (byte c < 128)"

definition is_digit :: "char \<Rightarrow> bool" where
  "is_digit c = (48 \<le> byte c \<and> byte c \<le> 57)"

definition is_upper :: "char \<Rightarrow> bool" where
  "is_upper c = (65 \<le> byte c \<and> byte c \<le> 90)"

definition is_lower :: "char \<Rightarrow> bool" where
  "is_lower c = (97 \<le> byte c \<and> byte c \<le> 122)"

definition is_alpha :: "char \<Rightarrow> bool" where
  "is_alpha c = (is_upper c \<or> is_lower c)"

definition is_alnum :: "char \<Rightarrow> bool" where
  "is_alnum c = (is_alpha c \<or> is_digit c)"

definition ascii_lower :: "char \<Rightarrow> char" where
  "ascii_lower c = (if is_upper c then char_of (byte c + 32) else c)"

lemmas byte_class_defs = byte_def is_ascii_def is_digit_def is_upper_def is_lower_def
  is_alpha_def is_alnum_def

lemma byte_less_256 [simp]: "byte c < 256"
  by (simp add: byte_def)

lemma byte_char_of [simp]: "n < 256 \<Longrightarrow> byte (char_of n) = n"
  by (simp add: byte_def)

lemma char_of_byte [simp]: "char_of (byte c) = c"
  by (simp add: byte_def)

section \<open>Package strings\<close>

definition HasPrefix :: "string \<Rightarrow> string \<Rightarrow> bool" where
  "HasPrefix s p = (take (length p) s = p)"

definition HasSuffix :: "string \<Rightarrow> string \<Rightarrow> bool" where
  "HasSuffix s t = (length t \<le> length s \<and> drop (length s - length t) s = t)"

definition TrimSuffix :: "string \<Rightarrow> string \<Rightarrow> string" where
  "TrimSuffix s t = (if HasSuffix s t then take (length s - length t) s else s)"

definition TrimRight :: "string \<Rightarrow> string \<Rightarrow> string" where
  "TrimRight s cutset = rev (dropWhile (\<lambda>c. c \<in> set cutset) (rev s))"

text \<open>
  \<^verbatim>\<open>strings.Cut\<close> with a one-byte separator: the text before the first separator, the text
  after it, and whether there is one. \<open>CutLast\<close> is the pair of slices around
  \<^verbatim>\<open>strings.LastIndex\<close>.
\<close>

fun Cut :: "char \<Rightarrow> string \<Rightarrow> string \<times> string \<times> bool" where
  "Cut x [] = ([], [], False)"
| "Cut x (c # s) =
     (if c = x then ([], s, True) else case Cut x s of (b, a, f) \<Rightarrow> (c # b, a, f))"

fun CutLast :: "char \<Rightarrow> string \<Rightarrow> (string \<times> string) option" where
  "CutLast x [] = None"
| "CutLast x (c # s) = (case CutLast x s of
      Some (b, a) \<Rightarrow> Some (c # b, a)
    | None \<Rightarrow> if c = x then Some ([], s) else None)"

text \<open>
  \<^verbatim>\<open>strings.ToLower\<close> maps ASCII strings byte by byte; any other string goes through the
  Unicode tables rune by rune, which is the argument \<open>ul\<close>.
\<close>

definition ToLower :: "(string \<Rightarrow> string) \<Rightarrow> string \<Rightarrow> string" where
  "ToLower ul s = (if list_all is_ascii s then map ascii_lower s else ul s)"

text \<open>
  \<^verbatim>\<open>strings.TrimSpace\<close> is used for its emptiness only: it is empty exactly when the
  string is a sequence of Unicode white space. Below, the UTF-8 encodings of those runes
  beyond ASCII (U+0085, U+00A0, U+1680, U+2000 to U+200A, U+2028, U+2029, U+202F, U+205F,
  U+3000).
\<close>

definition ascii_space :: "char \<Rightarrow> bool" where
  "ascii_space c = (byte c \<in> {9, 10, 11, 12, 13, 32})"

definition space2 :: "char \<Rightarrow> char \<Rightarrow> bool" where
  "space2 a b = (byte a = 194 \<and> byte b \<in> {133, 160})"

definition space3 :: "char \<Rightarrow> char \<Rightarrow> char \<Rightarrow> bool" where
  "space3 a b c =
     ((byte a = 225 \<and> byte b = 154 \<and> byte c = 128)
    \<or> (byte a = 226 \<and> byte b = 128 \<and> (128 \<le> byte c \<and> byte c \<le> 138 \<or> byte c \<in> {168, 169, 175}))
    \<or> (byte a = 226 \<and> byte b = 129 \<and> byte c = 159)
    \<or> (byte a = 227 \<and> byte b = 128 \<and> byte c = 128))"

fun TrimSpace_empty :: "string \<Rightarrow> bool" where
  "TrimSpace_empty [] = True"
| "TrimSpace_empty (a # s) =
     (if ascii_space a then TrimSpace_empty s
      else case s of
          [] \<Rightarrow> False
        | b # t \<Rightarrow> if space2 a b then TrimSpace_empty t
            else (case t of [] \<Rightarrow> False | c # u \<Rightarrow> space3 a b c \<and> TrimSpace_empty u))"

lemma Cut_absent [simp]: "x \<notin> set s \<Longrightarrow> Cut x s = (s, [], False)"
  by (induction s) auto

lemma Cut_append [simp]: "x \<notin> set p \<Longrightarrow> Cut x (p @ x # s) = (p, s, True)"
  by (induction p) auto

lemma CutLast_None_iff: "CutLast x s = None \<longleftrightarrow> x \<notin> set s"
  by (induction s) (auto split: option.splits)

lemma CutLast_absent [simp]: "x \<notin> set s \<Longrightarrow> CutLast x s = None"
  by (simp add: CutLast_None_iff)

lemma CutLast_append [simp]: "x \<notin> set s \<Longrightarrow> CutLast x (p @ x # s) = Some (p, s)"
  by (induction p) simp_all

lemma HasSuffix_iff: "HasSuffix s t \<longleftrightarrow> (\<exists>p. s = p @ t)"
proof
  assume "HasSuffix s t"
  then have "s = take (length s - length t) s @ t"
    by (metis HasSuffix_def append_take_drop_id)
  then show "\<exists>p. s = p @ t" by blast
qed (auto simp: HasSuffix_def)

lemma HasSuffix_append [simp]: "HasSuffix (p @ t) t"
  by (auto simp: HasSuffix_iff)

lemma HasPrefix_iff: "HasPrefix s p \<longleftrightarrow> (\<exists>t. s = p @ t)"
  by (metis HasPrefix_def append_eq_conv_conj append_take_drop_id)

lemma TrimSuffix_append [simp]: "TrimSuffix (p @ t) t = p"
  by (simp add: TrimSuffix_def HasSuffix_def)

lemma TrimRight_decomp: "\<exists>t. s = TrimRight s cs @ t \<and> set t \<subseteq> set cs"
proof -
  let ?P = "\<lambda>c. c \<in> set cs"
  have "rev s = takeWhile ?P (rev s) @ dropWhile ?P (rev s)" by simp
  then have "s = rev (dropWhile ?P (rev s)) @ rev (takeWhile ?P (rev s))"
    by (metis rev_append rev_rev_ident)
  then show ?thesis
    by (auto simp: TrimRight_def dest: set_takeWhileD intro!: exI[of _ "rev (takeWhile ?P (rev s))"])
qed

lemma TrimRight_last: "TrimRight s cs \<noteq> [] \<Longrightarrow> last (TrimRight s cs) \<notin> set cs"
  unfolding TrimRight_def
  by (metis (mono_tags, lifting) hd_dropWhile last_rev rev.simps(1) rev_rev_ident)

lemma ToLower_ascii: "list_all is_ascii s \<Longrightarrow> ToLower ul s = map ascii_lower s"
  by (simp add: ToLower_def)

lemma ascii_lower_id: "\<not> is_upper c \<Longrightarrow> ascii_lower c = c"
  by (simp add: ascii_lower_def)

section \<open>Package unicode/utf8\<close>

definition cont_byte :: "char \<Rightarrow> bool" where
  "cont_byte c = (128 \<le> byte c \<and> byte c \<le> 191)"

text \<open>
  \<^verbatim>\<open>utf8.ValidString\<close>: no overlong forms, no surrogates, nothing above U+10FFFF.
  \<open>utf8_width\<close> is the length of the valid encoding at the head of a string, 0 for none.
\<close>

fun utf8_width :: "string \<Rightarrow> nat" where
  "utf8_width [] = 0"
| "utf8_width (a # s) =
     (if byte a < 128 then 1
      else if 194 \<le> byte a \<and> byte a \<le> 223 then
        (case s of b # _ \<Rightarrow> if cont_byte b then 2 else 0 | _ \<Rightarrow> 0)
      else if 224 \<le> byte a \<and> byte a \<le> 239 then
        (case s of b # c # _ \<Rightarrow>
           if cont_byte b \<and> cont_byte c \<and> (byte a = 224 \<longrightarrow> 160 \<le> byte b) \<and> (byte a = 237 \<longrightarrow> byte b \<le> 159)
           then 3 else 0 | _ \<Rightarrow> 0)
      else if 240 \<le> byte a \<and> byte a \<le> 244 then
        (case s of b # c # d # _ \<Rightarrow>
           if cont_byte b \<and> cont_byte c \<and> cont_byte d
              \<and> (byte a = 240 \<longrightarrow> 144 \<le> byte b) \<and> (byte a = 244 \<longrightarrow> byte b \<le> 143)
           then 4 else 0 | _ \<Rightarrow> 0)
      else 0)"

function ValidString :: "string \<Rightarrow> bool" where
  "ValidString s =
     (if s = [] then True
      else if utf8_width s = 0 then False
      else ValidString (drop (utf8_width s) s))"
  by pat_completeness auto
termination
  by (relation "measure length") (auto simp del: utf8_width.simps)

declare ValidString.simps [simp del]

lemma ValidString_ascii: "list_all is_ascii s \<Longrightarrow> ValidString s"
proof (induction s)
  case Nil
  show ?case by (simp add: ValidString.simps)
next
  case (Cons c s)
  then show ?case by (simp add: ValidString.simps [of "c # s"] is_ascii_def)
qed

end
