(* ===== verification/Go_Net.thy ===== *)
theory Go_Net
  imports Go_Strings
begin

text \<open>
  IP address literals as Go's packages \<^verbatim>\<open>net\<close> and \<^verbatim>\<open>net/netip\<close> read them:
  \<^verbatim>\<open>netip.ParseAddr\<close>, \<^verbatim>\<open>net.ParseIP\<close> and \<^verbatim>\<open>IP.IsLoopback\<close>. An address is its 16 bytes;
  an IPv4 address is held in the IPv4-mapped form, with a flag.
\<close>

record ip_addr =
  ip_bytes :: "nat list"
  ip_is4 :: bool
  ip_zone :: string

definition is_hex :: "char \<Rightarrow> bool" where
  "is_hex c = (is_digit c \<or> 65 \<le> byte c \<and> byte c \<le> 70 \<or> 97 \<le> byte c \<and> byte c \<le> 102)"

definition unhex :: "char \<Rightarrow> nat" where
  "unhex c = (if is_digit c then byte c - 48 else if byte c \<le> 70 then byte c - 55 else byte c - 87)"

section \<open>IPv4\<close>

text \<open>
  The loop of \<^verbatim>\<open>parseIPv4Fields\<close>: the value and digit count of the current octet and the
  octets read so far. A leading zero, an octet above 255, an empty octet or a fifth octet
  is refused.
\<close>

fun ipv4_fields :: "string \<Rightarrow> nat \<Rightarrow> nat \<Rightarrow> nat list \<Rightarrow> nat list option" where
  "ipv4_fields [] val digLen acc =
     (if length acc < 3 \<or> digLen = 0 then None else Some (acc @ [val]))"
| "ipv4_fields (c # s) val digLen acc =
     (if is_digit c then
        (if digLen = 1 \<and> val = 0 then None
         else let v = val * 10 + (byte c - 48)
              in if v > 255 then None else ipv4_fields s v (Suc digLen) acc)
      else if c = CHR ''.'' then
        (if digLen = 0 \<or> s = [] \<or> length acc = 3 then None
         else ipv4_fields s 0 0 (acc @ [val]))
      else None)"

definition parseIPv4 :: "string \<Rightarrow> nat list option" where
  "parseIPv4 s = ipv4_fields s 0 0 []"

definition mapped_prefix :: "nat list" where
  "mapped_prefix = replicate 10 0 @ [255, 255]"

section \<open>IPv6\<close>

definition hex_value :: "string \<Rightarrow> nat" where
  "hex_value h = foldl (\<lambda>acc c. acc * 16 + unhex c) 0 h"

text \<open>
  One pass of the loop of \<^verbatim>\<open>parseIPv6\<close>: \<open>ip\<close> the bytes saved so far, \<open>ell\<close> the position
  of the ellipsis. The result says whether the loop goes on, the unread rest, the bytes and
  the ellipsis.
\<close>

definition ipv6_group ::
  "string \<Rightarrow> nat list \<Rightarrow> nat option \<Rightarrow> (bool \<times> string \<times> nat list \<times> nat option) option" where
  "ipv6_group s ip ell =
     (let h = takeWhile is_hex s; rest = dropWhile is_hex s; v = hex_value h;
          ip' = ip @ [v div 256, v mod 256]
      in if h = [] \<or> 4 < length h then None
         else case rest of
             [] \<Rightarrow> Some (False, [], ip', ell)
           | c # t \<Rightarrow>
             if c = CHR ''.'' then
               (if ell = None \<and> length ip \<noteq> 12 \<or> 16 < length ip + 4 then None
                else map_option (\<lambda>fs. (False, [], ip @ fs, ell)) (parseIPv4 s))
             else if c \<noteq> CHR '':'' then None
             else case t of
                 [] \<Rightarrow> None
               | d # u \<Rightarrow>
                 if d = CHR '':'' then
                   (if ell \<noteq> None then None else Some (u \<noteq> [], u, ip', Some (length ip')))
                 else Some (True, t, ip', ell))"

lemma ipv6_group_continues:
  "ipv6_group s ip ell = Some (True, s', ip', ell') \<Longrightarrow> length ip' = length ip + 2"
  by (auto simp: ipv6_group_def Let_def split: if_splits list.splits)

function ipv6_groups ::
  "string \<Rightarrow> nat list \<Rightarrow> nat option \<Rightarrow> (string \<times> nat list \<times> nat option) option" where
  "ipv6_groups s ip ell =
     (if 16 \<le> length ip then Some (s, ip, ell)
      else case ipv6_group s ip ell of
          None \<Rightarrow> None
        | Some (True, s', ip', ell') \<Rightarrow> ipv6_groups s' ip' ell'
        | Some (False, s', ip', ell') \<Rightarrow> Some (s', ip', ell'))"
  by pat_completeness auto
termination
  by (relation "measure (\<lambda>(s, ip, ell). 16 - length ip)") (auto dest: ipv6_group_continues)

declare ipv6_groups.simps [simp del]

text \<open>Expand the ellipsis, which must stand for at least one group.\<close>

definition ipv6_expand :: "string \<times> nat list \<times> nat option \<Rightarrow> nat list option" where
  "ipv6_expand r = (case r of (s, ip, ell) \<Rightarrow>
     if s \<noteq> [] then None
     else if length ip < 16 then
       (case ell of None \<Rightarrow> None
        | Some e \<Rightarrow> Some (take e ip @ replicate (16 - length ip) 0 @ drop e ip))
     else if ell \<noteq> None then None else Some ip)"

definition ipv6_body :: "string \<Rightarrow> nat list option" where
  "ipv6_body s =
     (if HasPrefix s ''::'' then
        (if drop 2 s = [] then Some (replicate 16 0)
         else Option.bind (ipv6_groups (drop 2 s) [] (Some 0)) ipv6_expand)
      else Option.bind (ipv6_groups s [] None) ipv6_expand)"

definition parseIPv6 :: "string \<Rightarrow> ip_addr option" where
  "parseIPv6 s = (case Cut (CHR ''%'') s of (body, zone, found) \<Rightarrow>
     if found \<and> zone = [] then None
     else map_option (\<lambda>bs. \<lparr>ip_bytes = bs, ip_is4 = False, ip_zone = zone\<rparr>) (ipv6_body body))"

section \<open>netip.ParseAddr, net.ParseIP, IP.IsLoopback\<close>

definition ParseAddr :: "string \<Rightarrow> ip_addr option" where
  "ParseAddr s = (case dropWhile (\<lambda>c. c \<notin> {CHR ''.'', CHR '':'', CHR ''%''}) s of
      [] \<Rightarrow> None
    | c # _ \<Rightarrow>
        if c = CHR ''.'' then
          map_option (\<lambda>bs. \<lparr>ip_bytes = mapped_prefix @ bs, ip_is4 = True, ip_zone = []\<rparr>) (parseIPv4 s)
        else if c = CHR '':'' then parseIPv6 s
        else None)"

definition ParseIP :: "string \<Rightarrow> nat list option" where
  "ParseIP s = (case ParseAddr s of
      None \<Rightarrow> None
    | Some a \<Rightarrow> if ip_zone a \<noteq> [] then None else Some (ip_bytes a))"

definition IsLoopback :: "nat list \<Rightarrow> bool" where
  "IsLoopback ip =
     (if take 12 ip = mapped_prefix then ip ! 12 = 127
      else ip = replicate 15 0 @ [1])"

lemma ipv4_fields_length:
  "ipv4_fields s v d acc = Some fs \<Longrightarrow> length acc \<le> 3 \<Longrightarrow> length fs = 4"
  by (induction s v d acc rule: ipv4_fields.induct)
    (auto simp: Let_def split: if_splits)

lemma parseIPv4_length: "parseIPv4 s = Some fs \<Longrightarrow> length fs = 4"
  unfolding parseIPv4_def by (erule ipv4_fields_length) simp

definition ipv6_in_range :: "nat list \<Rightarrow> nat option \<Rightarrow> bool" where
  "ipv6_in_range ip ell = (length ip \<le> 16 \<and> (\<forall>e \<in> set_option ell. e \<le> length ip))"

lemma ipv6_group_bounds:
  assumes "ipv6_group s ip ell = Some (go, s', ip', ell')" "length ip \<le> 14" "ipv6_in_range ip ell"
  shows "ipv6_in_range ip' ell'"
  using assms
  by (auto simp: ipv6_group_def ipv6_in_range_def Let_def
      dest: parseIPv4_length split: if_splits list.splits)

lemma ipv6_groups_bounds:
  assumes "ipv6_groups s ip ell = Some (s', ip', ell')" "even (length ip)" "ipv6_in_range ip ell"
  shows "ipv6_in_range ip' ell'"
  using assms
proof (induction s ip ell rule: ipv6_groups.induct)
  case (1 s ip ell)
  show ?case
  proof (cases "16 \<le> length ip")
    case True
    with "1.prems" show ?thesis by (simp add: ipv6_groups.simps [of s ip ell])
  next
    case False
    with "1.prems"(2) have short: "length ip \<le> 14" by presburger
    from False "1.prems"(1) obtain go t jp m where
      g: "ipv6_group s ip ell = Some (go, t, jp, m)"
      by (auto simp: ipv6_groups.simps [of s ip ell] split: option.splits prod.splits)
    have jp: "ipv6_in_range jp m"
      using ipv6_group_bounds [OF g short "1.prems"(3)] .
    show ?thesis
    proof (cases go)
      case True
      with g False "1.prems"(1) have "ipv6_groups t jp m = Some (s', ip', ell')"
        by (simp add: ipv6_groups.simps [of s ip ell])
      moreover have "even (length jp)"
        using ipv6_group_continues g True "1.prems"(2) by fastforce
      ultimately show ?thesis
        using "1.IH" False g True jp by blast
    next
      case stop: False
      with g False "1.prems"(1) jp show ?thesis
        by (simp add: ipv6_groups.simps [of s ip ell])
    qed
  qed
qed

lemma ipv6_expand_length:
  "ipv6_in_range ip ell \<Longrightarrow> ipv6_expand (s, ip, ell) = Some bs \<Longrightarrow> length bs = 16"
  by (auto simp: ipv6_expand_def ipv6_in_range_def split: if_splits option.splits)

lemma ipv6_bind_length:
  assumes "Option.bind (ipv6_groups s [] ell) ipv6_expand = Some bs" "ell \<in> {None, Some 0}"
  shows "length bs = 16"
proof -
  from assms(1) obtain t ip m where
    g: "ipv6_groups s [] ell = Some (t, ip, m)" and e: "ipv6_expand (t, ip, m) = Some bs"
    by (cases "ipv6_groups s [] ell") auto
  have "ipv6_in_range ip m"
    using ipv6_groups_bounds [OF g] assms(2) by (auto simp: ipv6_in_range_def)
  then show ?thesis using e by (rule ipv6_expand_length)
qed

lemma ipv6_body_length: "ipv6_body s = Some bs \<Longrightarrow> length bs = 16"
  by (auto simp: ipv6_body_def split: if_split_asm simp del: bind_eq_Some_conv
      dest: ipv6_bind_length)

lemma parseIPv6_length: "parseIPv6 s = Some a \<Longrightarrow> length (ip_bytes a) = 16"
  by (auto simp: parseIPv6_def split: if_splits prod.splits dest: ipv6_body_length)

text \<open>A parsed address has 16 bytes, so the reads of \<open>IsLoopback\<close> are in range.\<close>

lemma ParseIP_length: "ParseIP s = Some ip \<Longrightarrow> length ip = 16"
  by (auto simp: ParseIP_def ParseAddr_def mapped_prefix_def
      dest: parseIPv4_length parseIPv6_length split: option.splits list.splits if_splits)

end
