(* ===== verification/Go_Url.thy ===== *)
theory Go_Url
  imports Go_Net "HOL-Library.List_Lexorder" "HOL-Library.Char_ord"
begin

text \<open>
  Go's package \<^verbatim>\<open>net/url\<close> as the plugin uses it: \<^verbatim>\<open>url.Parse\<close> with the fields
  \<^verbatim>\<open>Scheme\<close>, \<^verbatim>\<open>Opaque\<close> and \<^verbatim>\<open>Host\<close>, \<^verbatim>\<open>URL.Hostname\<close>, and \<^verbatim>\<open>url.Values.Encode\<close> with its
  inverse. The path, the query, the fragment and the user information are checked for
  the errors that parsing them raises; their decoded values are not used by the plugin.
\<close>

datatype url_error =
    InvalidControlCharacter
  | MissingProtocolScheme
  | FirstSegmentColon
  | InvalidUserinfo
  | InvalidPort string
  | MissingCloseBracket
  | InvalidIPLiteral
  | InvalidHostError
  | EscapeError

record url =
  Scheme :: string
  Opaque :: string
  Host :: string

section \<open>Percent-encoding\<close>

definition percent_value :: "char \<Rightarrow> char \<Rightarrow> nat" where
  "percent_value a b = 16 * unhex a + unhex b"

text \<open>\<^verbatim>\<open>unescape\<close> in the modes that only reject a malformed escape (path, fragment, user).\<close>

fun percent_ok :: "string \<Rightarrow> bool" where
  "percent_ok [] = True"
| "percent_ok (c # s) =
     (if c = CHR ''%'' then
        (case s of a # b # t \<Rightarrow> is_hex a \<and> is_hex b \<and> percent_ok t | _ \<Rightarrow> False)
      else percent_ok s)"

text \<open>The bytes of a host that \<^verbatim>\<open>shouldEscape(c, encodeHost)\<close> lets stand.\<close>

definition host_char :: "char \<Rightarrow> bool" where
  "host_char c = (is_alnum c \<or> c \<in> set ''!$&()*+,;=:[]<>-_.~'' \<or> byte c \<in> {34, 39})"

text \<open>
  \<^verbatim>\<open>unescape(s, encodeHost)\<close>: only non-ASCII bytes and the percent sign may be escaped.
\<close>

fun unescape_host :: "string \<Rightarrow> string option" where
  "unescape_host [] = Some []"
| "unescape_host (c # s) =
     (if c = CHR ''%'' then
        (case s of a # b # t \<Rightarrow>
           if is_hex a \<and> is_hex b \<and> (8 \<le> unhex a \<or> a = CHR ''2'' \<and> b = CHR ''5'')
           then map_option ((#) (char_of (percent_value a b))) (unescape_host t)
           else None
         | _ \<Rightarrow> None)
      else if is_ascii c \<and> \<not> host_char c then None
      else map_option ((#) c) (unescape_host s))"

text \<open>\<^verbatim>\<open>unescape(s, encodeZone)\<close>, for the zone of an IPv6 literal.\<close>

fun unescape_zone :: "string \<Rightarrow> string option" where
  "unescape_zone [] = Some []"
| "unescape_zone (c # s) =
     (if c = CHR ''%'' then
        (case s of a # b # t \<Rightarrow>
           (let v = char_of (percent_value a b) in
            if is_hex a \<and> is_hex b \<and> (a = CHR ''2'' \<and> b = CHR ''5'' \<or> v = CHR '' '' \<or> host_char v)
            then map_option ((#) v) (unescape_zone t)
            else None)
         | _ \<Rightarrow> None)
      else if is_ascii c \<and> \<not> host_char c then None
      else map_option ((#) c) (unescape_zone s))"

section \<open>The authority\<close>

definition validOptionalPort :: "string \<Rightarrow> bool" where
  "validOptionalPort p = (case p of [] \<Rightarrow> True | c # s \<Rightarrow> c = CHR '':'' \<and> list_all is_digit s)"

definition userinfo_char :: "char \<Rightarrow> bool" where
  "userinfo_char c = (is_alnum c \<or> c \<in> set ''-._:~!$&()*+,;=%@'' \<or> byte c = 39)"

text \<open>Split at the first \<^verbatim>\<open>%25\<close>, which opens the zone of an IPv6 literal.\<close>

fun cut_zone :: "string \<Rightarrow> string \<times> string" where
  "cut_zone [] = ([], [])"
| "cut_zone (c # s) =
     (if HasPrefix (c # s) ''%25'' then ([], c # s)
      else case cut_zone s of (h, z) \<Rightarrow> (c # h, z))"

definition parse_bracket_host :: "string \<Rightarrow> string \<Rightarrow> url_error + string" where
  "parse_bracket_host hostname colonPort = (case cut_zone hostname of (h, z) \<Rightarrow>
     case (unescape_host h, unescape_zone z, unescape_host colonPort) of
         (Some h', Some z', Some p) \<Rightarrow>
           (case ParseAddr (h' @ z') of
              None \<Rightarrow> Inl InvalidIPLiteral
            | Some a \<Rightarrow> if ip_is4 a then Inl InvalidIPLiteral
                else Inr (''['' @ h' @ z' @ '']'' @ p))
       | _ \<Rightarrow> Inl InvalidHostError)"

text \<open>
  As in the Go release the module asks for (1.26): an opening bracket must start the host, and
  without one a single colon may occur, the one of the port. (Its exception for the schemes of
  PostgreSQL, which no URL of the plugin has, is left out.)
\<close>

definition parseHost :: "string \<Rightarrow> url_error + string" where
  "parseHost host = (case CutLast (CHR ''['') host of
      Some (before, fromOpen) \<Rightarrow>
        if before \<noteq> [] then Inl InvalidIPLiteral
        else (case CutLast (CHR '']'') fromOpen of
            None \<Rightarrow> Inl MissingCloseBracket
          | Some (hostname, colonPort) \<Rightarrow>
              if \<not> validOptionalPort colonPort then Inl (InvalidPort colonPort)
              else parse_bracket_host hostname colonPort)
    | None \<Rightarrow>
        (let portOk = (case Cut (CHR '':'') host of
             (_, p, found) \<Rightarrow> \<not> found \<or> validOptionalPort (CHR '':'' # p))
         in if \<not> portOk then Inl (InvalidPort host)
            else case unescape_host host of None \<Rightarrow> Inl InvalidHostError | Some h \<Rightarrow> Inr h))"

definition parseAuthority :: "string \<Rightarrow> url_error + string" where
  "parseAuthority authority = (case CutLast (CHR ''@'') authority of
      None \<Rightarrow> parseHost authority
    | Some (userinfo, host) \<Rightarrow>
        (case parseHost host of
           Inl e \<Rightarrow> Inl e
         | Inr h \<Rightarrow>
             if \<not> list_all userinfo_char userinfo then Inl InvalidUserinfo
             else case Cut (CHR '':'') userinfo of (username, password, _) \<Rightarrow>
               if percent_ok username \<and> percent_ok password then Inr h else Inl EscapeError))"

section \<open>url.Parse\<close>

definition ctl_byte :: "char \<Rightarrow> bool" where
  "ctl_byte c = (byte c < 32 \<or> byte c = 127)"

text \<open>
  \<^verbatim>\<open>getScheme\<close>: the scheme and the rest, no scheme when a byte that cannot be part of one
  comes before the colon.
\<close>

fun scheme_scan :: "string \<Rightarrow> string \<Rightarrow> (string \<times> string) option" where
  "scheme_scan seen [] = None"
| "scheme_scan seen (c # s) =
     (if is_alpha c then scheme_scan (seen @ [c]) s
      else if is_digit c \<or> c \<in> set ''+-.'' then
        (if seen = [] then None else scheme_scan (seen @ [c]) s)
      else if c = CHR '':'' then Some (seen, s)
      else None)"

definition getScheme :: "string \<Rightarrow> url_error + (string \<times> string)" where
  "getScheme raw = (case scheme_scan [] raw of
      None \<Rightarrow> Inr ([], raw)
    | Some (sch, rest) \<Rightarrow> if sch = [] then Inl MissingProtocolScheme else Inr (sch, rest))"

text \<open>The part of \<^verbatim>\<open>parse\<close> after the scheme and the query have been taken off.\<close>

definition parse_hier :: "string \<Rightarrow> string \<Rightarrow> url_error + url" where
  "parse_hier sch rest =
     (if \<not> HasPrefix rest ''/'' \<and> sch \<noteq> [] then Inr \<lparr>Scheme = sch, Opaque = rest, Host = []\<rparr>
      else if \<not> HasPrefix rest ''/'' \<and> CHR '':'' \<in> set (fst (Cut (CHR ''/'') rest)) then
        Inl FirstSegmentColon
      else if (sch \<noteq> [] \<or> \<not> HasPrefix rest ''///'') \<and> HasPrefix rest ''//'' then
        (case Cut (CHR ''/'') (drop 2 rest) of (authority, path, _) \<Rightarrow>
           case parseAuthority authority of
             Inl e \<Rightarrow> Inl e
           | Inr h \<Rightarrow> if percent_ok path then Inr \<lparr>Scheme = sch, Opaque = [], Host = h\<rparr>
               else Inl EscapeError)
      else if percent_ok rest then Inr \<lparr>Scheme = sch, Opaque = [], Host = []\<rparr>
      else Inl EscapeError)"

definition url_Parse :: "string \<Rightarrow> url_error + url" where
  "url_Parse rawURL = (case Cut (CHR ''#'') rawURL of (u, frag, _) \<Rightarrow>
     if list_ex ctl_byte u then Inl InvalidControlCharacter
     else if u = ''*'' then
       (if percent_ok frag then Inr \<lparr>Scheme = [], Opaque = [], Host = []\<rparr> else Inl EscapeError)
     else case getScheme u of
         Inl e \<Rightarrow> Inl e
       | Inr (sch, rest) \<Rightarrow>
         case parse_hier (map ascii_lower sch) (fst (Cut (CHR ''?'') rest)) of
             Inl e \<Rightarrow> Inl e
           | Inr r \<Rightarrow> if percent_ok frag then Inr r else Inl EscapeError)"

text \<open>\<^verbatim>\<open>URL.Hostname\<close>: the host without a valid port, without the brackets of an IPv6 literal.\<close>

definition strip_port :: "string \<Rightarrow> string" where
  "strip_port h = (case CutLast (CHR '':'') h of
      None \<Rightarrow> h
    | Some (b, p) \<Rightarrow> if validOptionalPort (CHR '':'' # p) then b else h)"

definition Hostname :: "url \<Rightarrow> string" where
  "Hostname u = (let h = strip_port (Host u)
     in if HasPrefix h ''['' \<and> HasSuffix h '']'' then butlast (tl h) else h)"

section \<open>url.Values.Encode\<close>

definition hex_upper :: "nat \<Rightarrow> char" where
  "hex_upper n = char_of (if n < 10 then 48 + n else 55 + n)"

definition query_safe :: "char \<Rightarrow> bool" where
  "query_safe c = (is_alnum c \<or> c \<in> set ''-_.~'')"

fun QueryEscape :: "string \<Rightarrow> string" where
  "QueryEscape [] = []"
| "QueryEscape (c # s) =
     (if query_safe c then [c]
      else if c = CHR '' '' then ''+''
      else [CHR ''%'', hex_upper (byte c div 16), hex_upper (byte c mod 16)]) @ QueryEscape s"

fun QueryUnescape :: "string \<Rightarrow> string option" where
  "QueryUnescape [] = Some []"
| "QueryUnescape (c # s) =
     (if c = CHR ''%'' then
        (case s of a # b # t \<Rightarrow>
           if is_hex a \<and> is_hex b
           then map_option ((#) (char_of (percent_value a b))) (QueryUnescape t) else None
         | _ \<Rightarrow> None)
      else map_option ((#) (if c = CHR ''+'' then CHR '' '' else c)) (QueryUnescape s))"

text \<open>A form with one value per key, in no particular order: \<^verbatim>\<open>Encode\<close> sorts by key.\<close>

type_synonym form = "(string \<times> string) list"

fun encode_pairs :: "form \<Rightarrow> string" where
  "encode_pairs [] = []"
| "encode_pairs [(k, v)] = QueryEscape k @ ''='' @ QueryEscape v"
| "encode_pairs ((k, v) # kvs) = QueryEscape k @ ''='' @ QueryEscape v @ ''&'' @ encode_pairs kvs"

definition Values_Encode :: "form \<Rightarrow> string" where
  "Values_Encode f = encode_pairs (sort_key fst f)"

text \<open>
  \<^verbatim>\<open>url.ParseQuery\<close>: the pairs in the order of the text; an empty piece is skipped, a piece
  with a semicolon or a malformed escape is an error.
\<close>

fun split_on :: "char \<Rightarrow> string \<Rightarrow> string list" where
  "split_on x [] = [[]]"
| "split_on x (c # s) =
     (if c = x then [] # split_on x s
      else case split_on x s of p # ps \<Rightarrow> (c # p) # ps | [] \<Rightarrow> [[c]])"

definition parse_pair :: "string \<Rightarrow> (string \<times> string) option" where
  "parse_pair piece =
     (if CHR '';'' \<in> set piece then None
      else case Cut (CHR ''='') piece of (k, v, _) \<Rightarrow>
        (case (QueryUnescape k, QueryUnescape v) of
           (Some k', Some v') \<Rightarrow> Some (k', v') | _ \<Rightarrow> None))"

definition ParseQuery :: "string \<Rightarrow> form option" where
  "ParseQuery body = those (map parse_pair (filter (\<lambda>p. p \<noteq> []) (split_on (CHR ''&'') body)))"

section \<open>Forms survive the wire\<close>

lemma hex_upper_bytes: "n < 16 \<Longrightarrow> byte (hex_upper n) = (if n < 10 then 48 + n else 55 + n)"
  by (auto simp: hex_upper_def)

lemma hex_upper_hex: "n < 16 \<Longrightarrow> is_hex (hex_upper n) \<and> unhex (hex_upper n) = n"
  by (auto simp: hex_upper_bytes is_hex_def unhex_def is_digit_def)

lemma percent_value_byte: "percent_value (hex_upper (byte c div 16)) (hex_upper (byte c mod 16)) = byte c"
proof -
  have "byte c div 16 < 16" using byte_less_256 [of c] by linarith
  then show ?thesis by (simp add: percent_value_def hex_upper_hex)
qed

lemma QueryUnescape_QueryEscape: "QueryUnescape (QueryEscape s @ t) = map_option ((@) s) (QueryUnescape t)"
proof (induction s)
  case Nil
  then show ?case by (cases "QueryUnescape t") simp_all
next
  case (Cons c s)
  have hex: "is_hex (hex_upper (byte c div 16))" "is_hex (hex_upper (byte c mod 16))"
    using byte_less_256 [of c] hex_upper_hex by (simp_all add: less_mult_imp_div_less)
  have "\<not> query_safe (CHR ''%'')" "\<not> query_safe (CHR ''+'')"
    by (simp_all add: query_safe_def byte_class_defs is_alnum_def is_alpha_def)
  then have "c \<noteq> CHR ''%'' \<and> c \<noteq> CHR ''+''" if "query_safe c" using that by auto
  then show ?case
    using Cons hex by (cases "QueryUnescape t") (auto simp: percent_value_byte)
qed

lemma QueryEscape_chars: "x \<in> set (QueryEscape s) \<Longrightarrow> query_safe x \<or> x = CHR ''+'' \<or> x = CHR ''%''"
proof (induction s)
  case (Cons c s)
  have "query_safe (hex_upper n)" if "n < 16" for n
    using that by (auto simp: query_safe_def is_alnum_def is_alpha_def is_upper_def is_digit_def hex_upper_bytes)
  then have "query_safe (hex_upper (byte c div 16))" "query_safe (hex_upper (byte c mod 16))"
    using byte_less_256 [of c] by (simp_all add: less_mult_imp_div_less)
  with Cons show ?case by (auto split: if_splits)
qed simp

lemma QueryEscape_plain: "CHR ''&'' \<notin> set (QueryEscape s)" "CHR ''='' \<notin> set (QueryEscape s)" "CHR '';'' \<notin> set (QueryEscape s)"
proof -
  have "x \<notin> set (QueryEscape s)" if "x \<in> {CHR ''&'', CHR ''='', CHR '';''}" for x
  proof
    assume "x \<in> set (QueryEscape s)"
    then have "query_safe x \<or> x = CHR ''+'' \<or> x = CHR ''%''" by (rule QueryEscape_chars)
    with that show False by (auto simp: query_safe_def byte_class_defs is_alnum_def is_alpha_def)
  qed
  then show "CHR ''&'' \<notin> set (QueryEscape s)" "CHR ''='' \<notin> set (QueryEscape s)" "CHR '';'' \<notin> set (QueryEscape s)"
    by simp_all
qed

lemma split_on_absent: "x \<notin> set s \<Longrightarrow> split_on x s = [s]"
  by (induction s) auto

lemma split_on_append: "x \<notin> set s \<Longrightarrow> split_on x (s @ x # t) = s # split_on x t"
  by (induction s) auto

lemma parse_pair_escape: "parse_pair (QueryEscape k @ ''='' @ QueryEscape v) = Some (k, v)"
  using QueryUnescape_QueryEscape [of k "[]"] QueryUnescape_QueryEscape [of v "[]"]
  by (simp add: parse_pair_def QueryEscape_plain)

lemma ParseQuery_encode_pairs: "ParseQuery (encode_pairs f) = Some f"
proof (induction f rule: encode_pairs.induct)
  case 1
  then show ?case by (simp add: ParseQuery_def)
next
  case (2 k v)
  then show ?case
    using parse_pair_escape [of k v] by (simp add: ParseQuery_def split_on_absent QueryEscape_plain)
next
  case (3 k v kv kvs)
  let ?p = "QueryEscape k @ ''='' @ QueryEscape v"
  have "encode_pairs ((k, v) # kv # kvs) = ?p @ CHR ''&'' # encode_pairs (kv # kvs)" by simp
  moreover have "CHR ''&'' \<notin> set ?p" by (simp add: QueryEscape_plain)
  ultimately have "split_on (CHR ''&'') (encode_pairs ((k, v) # kv # kvs))
      = ?p # split_on (CHR ''&'') (encode_pairs (kv # kvs))"
    using split_on_append by metis
  then show ?case
    using 3 parse_pair_escape [of k v] by (simp add: ParseQuery_def del: encode_pairs.simps)
qed

lemma ParseQuery_Values_Encode: "ParseQuery (Values_Encode f) = Some (sort_key fst f)"
  by (simp add: Values_Encode_def ParseQuery_encode_pairs)

end
