(* ===== verification/Hostcheck.thy ===== *)
theory Hostcheck
  imports Go_Url
begin

text \<open>
  \<^verbatim>\<open>hostcheck.go\<close>: the allowlist that keeps OAuth secrets on Salesforce hosts. The
  argument \<open>ul\<close> is the Unicode lower-casing of \<^verbatim>\<open>strings.ToLower\<close> on non-ASCII text.
\<close>

datatype host_error =
    InvalidTokenURL url_error
  | NoHost string
  | NotHttps string
  | LoopbackHost string
  | NotSalesforceHost string

definition salesforceHostSuffixes :: "string list" where
  "salesforceHostSuffixes = [''.salesforce.com'', ''.force.com'', ''.salesforce.mil'']"

definition isLoopbackHost :: "string \<Rightarrow> bool" where
  "isLoopbackHost host =
     (if host = ''localhost'' then True
      else case ParseIP host of Some ip \<Rightarrow> IsLoopback ip | None \<Rightarrow> False)"

text \<open>\<open>None\<close> is the nil error: the endpoint is accepted.\<close>

definition validateTokenHost :: "(string \<Rightarrow> string) \<Rightarrow> string \<Rightarrow> bool \<Rightarrow> host_error option" where
  "validateTokenHost ul rawURL allowNonSalesforce = (case url_Parse rawURL of
      Inl e \<Rightarrow> Some (InvalidTokenURL e)
    | Inr u \<Rightarrow>
      (let host = ToLower ul (Hostname u); loopback = isLoopbackHost host
       in if host = [] then Some (NoHost rawURL)
          else if Scheme u \<noteq> ''https'' \<and> \<not> loopback then Some (NotHttps (Scheme u))
          else if allowNonSalesforce then None
          else if loopback then Some (LoopbackHost host)
          else if list_ex (HasSuffix host) salesforceHostSuffixes then None
          else Some (NotSalesforceHost host)))"

definition hostOf :: "(string \<Rightarrow> string) \<Rightarrow> string \<Rightarrow> string" where
  "hostOf ul rawURL = (case url_Parse rawURL of
      Inl _ \<Rightarrow> []
    | Inr u \<Rightarrow> ToLower ul (Hostname u))"

section \<open>What the allowlist accepts\<close>

definition salesforce_host :: "string \<Rightarrow> bool" where
  "salesforce_host h \<longleftrightarrow> (\<exists>suf \<in> set salesforceHostSuffixes. HasSuffix h suf)"

lemma validateTokenHost_accepts:
  "validateTokenHost ul raw allow = None \<longleftrightarrow>
     (\<exists>u. url_Parse raw = Inr u \<and> hostOf ul raw \<noteq> []
        \<and> (Scheme u = ''https'' \<or> isLoopbackHost (hostOf ul raw))
        \<and> (allow \<or> \<not> isLoopbackHost (hostOf ul raw) \<and> salesforce_host (hostOf ul raw)))"
  by (cases "url_Parse raw")
    (auto simp: validateTokenHost_def hostOf_def Let_def salesforce_host_def list_ex_iff)

section \<open>URLs of the shape https://[userinfo@]host/path\<close>

definition dns_char :: "char \<Rightarrow> bool" where
  "dns_char c = (is_alnum c \<or> c = CHR ''-'' \<or> c = CHR ''.'')"

definition path_char :: "char \<Rightarrow> bool" where
  "path_char c = (\<not> ctl_byte c \<and> c \<notin> set ''#?%'')"

lemma dns_char_props:
  assumes "dns_char c"
  shows "is_ascii c" "host_char c" "\<not> ctl_byte c" "c \<notin> set ''[]:%@/#?''"
  using assms
  by (auto simp: dns_char_def host_char_def ctl_byte_def byte_class_defs)

lemma percent_ok_plain: "CHR ''%'' \<notin> set s \<Longrightarrow> percent_ok s"
  by (induction s) auto

lemma unescape_host_dns: "list_all dns_char h \<Longrightarrow> unescape_host h = Some h"
proof (induction h)
  case (Cons c h)
  then have "c \<noteq> CHR ''%''" "host_char c" by (auto dest: dns_char_props)
  with Cons show ?case by simp
qed simp

lemma dns_no_special:
  "list_all dns_char h \<Longrightarrow> x \<in> set ''[]:%@/#?'' \<Longrightarrow> x \<notin> set h"
  using dns_char_props(4) by (fastforce simp: list_all_iff)

lemma parseHost_dns:
  assumes h: "list_all dns_char h"
  shows "parseHost h = Inr h"
proof -
  have "CHR ''['' \<notin> set h" "CHR '':'' \<notin> set h"
    by (rule dns_no_special [OF h], simp)+
  then show ?thesis using h by (simp add: parseHost_def unescape_host_dns)
qed

lemma Hostname_dns:
  assumes h: "list_all dns_char h"
  shows "Hostname \<lparr>Scheme = s, Opaque = q, Host = h\<rparr> = h"
proof -
  have colon: "CHR '':'' \<notin> set h" and open_bracket: "CHR ''['' \<notin> set h"
    by (rule dns_no_special [OF h], simp)+
  from open_bracket have "\<not> HasPrefix h ''[''" by (auto simp: HasPrefix_iff)
  with colon show ?thesis by (simp add: Hostname_def strip_port_def)
qed

lemma scheme_scan_https: "scheme_scan [] (''https:'' @ s) = Some (''https'', s)"
  by (simp add: byte_class_defs)

lemma url_Parse_https:
  assumes auth: "list_all (\<lambda>c. \<not> ctl_byte c \<and> c \<notin> set ''/#?'') auth"
    and path: "list_all path_char p"
  shows "url_Parse (''https://'' @ auth @ ''/'' @ p) =
    map_sum id (\<lambda>h. \<lparr>Scheme = ''https'', Opaque = [], Host = h\<rparr>) (parseAuthority auth)"
proof -
  let ?u = "''https://'' @ auth @ ''/'' @ p"
  let ?rest = "''//'' @ auth @ ''/'' @ p"
  have cut: "Cut (CHR ''#'') ?u = (?u, [], False)"
    using auth path by (intro Cut_absent) (auto simp: list_all_iff path_char_def)
  have cutq: "Cut (CHR ''?'') ?rest = (?rest, [], False)"
    using auth path by (intro Cut_absent) (auto simp: list_all_iff path_char_def)
  have "CHR ''/'' \<notin> set auth"
    using auth by (auto simp: list_all_iff)
  then have cuts: "Cut (CHR ''/'') (auth @ ''/'' @ p) = (auth, p, True)"
    by simp
  have "CHR ''%'' \<notin> set p"
    using path by (auto simp: list_all_iff path_char_def)
  then have ok: "percent_ok p" by (rule percent_ok_plain)
  have ctl: "\<not> list_ex ctl_byte ?u"
    using auth path by (simp add: list_all_iff list_ex_iff path_char_def) (auto simp: ctl_byte_def byte_def)
  have sch: "getScheme ?u = Inr (''https'', ?rest)"
    using scheme_scan_https [of ?rest] by (simp add: getScheme_def)
  have low: "map ascii_lower ''https'' = ''https''"
    by (simp add: ascii_lower_def is_upper_def byte_def)
  have "parse_hier ''https'' ?rest =
    map_sum id (\<lambda>h. \<lparr>Scheme = ''https'', Opaque = [], Host = h\<rparr>) (parseAuthority auth)"
    using cuts ok by (simp add: parse_hier_def HasPrefix_def split: sum.splits)
  then show ?thesis
    using cut ctl sch cutq low by (simp add: url_Parse_def split: sum.splits)
qed

lemma list_all_dns_authority:
  "list_all dns_char h \<Longrightarrow> list_all (\<lambda>c. \<not> ctl_byte c \<and> c \<notin> set ''/#?'') h"
  by (erule list_all_weaken) (auto dest: dns_char_props)

lemma parseAuthority_dns:
  assumes h: "list_all dns_char h"
  shows "parseAuthority h = Inr h"
proof -
  have "CHR ''@'' \<notin> set h" by (rule dns_no_special [OF h]) simp
  then show ?thesis using h by (simp add: parseAuthority_def parseHost_dns)
qed

lemma parseAuthority_userinfo:
  assumes h: "list_all dns_char h" and "list_all userinfo_char ui" and "CHR ''%'' \<notin> set ui"
  shows "parseAuthority (ui @ ''@'' @ h) = Inr h"
proof -
  have "CHR ''@'' \<notin> set h" by (rule dns_no_special [OF h]) simp
  then have cut: "CutLast (CHR ''@'') (ui @ ''@'' @ h) = Some (ui, h)" by simp
  have "set (fst (Cut x s)) \<subseteq> set s \<and> set (fst (snd (Cut x s))) \<subseteq> set s" for x s
    by (induction s) (auto split: prod.splits)
  then have "percent_ok (fst (Cut (CHR '':'') ui))" "percent_ok (fst (snd (Cut (CHR '':'') ui)))"
    using assms(3) by (meson percent_ok_plain subsetD)+
  then show ?thesis
    using cut assms by (cases "Cut (CHR '':'') ui") (simp add: parseAuthority_def parseHost_dns)
qed

text \<open>The effective host of such a URL, with or without user information.\<close>

lemma https_url_host:
  assumes h: "list_all dns_char h" and p: "list_all path_char p"
  shows "url_Parse (''https://'' @ h @ ''/'' @ p) = Inr \<lparr>Scheme = ''https'', Opaque = [], Host = h\<rparr>"
    and "hostOf ul (''https://'' @ h @ ''/'' @ p) = map ascii_lower h"
proof -
  show url: "url_Parse (''https://'' @ h @ ''/'' @ p) = Inr \<lparr>Scheme = ''https'', Opaque = [], Host = h\<rparr>"
    using url_Parse_https [OF list_all_dns_authority [OF h] p] parseAuthority_dns [OF h] by simp
  have "list_all is_ascii h"
    using h by (rule list_all_weaken) (simp add: dns_char_props)
  then show "hostOf ul (''https://'' @ h @ ''/'' @ p) = map ascii_lower h"
    using url h by (simp add: hostOf_def Hostname_dns ToLower_ascii)
qed

lemma userinfo_authority_chars:
  assumes "list_all userinfo_char ui"
  shows "list_all (\<lambda>c. \<not> ctl_byte c \<and> c \<notin> set ''/#?'') ui"
  using assms
  by (rule list_all_weaken)
    (auto simp: userinfo_char_def ctl_byte_def byte_class_defs)

lemma https_userinfo_url:
  assumes h: "list_all dns_char h" and p: "list_all path_char p"
    and ui: "list_all userinfo_char ui" "CHR ''%'' \<notin> set ui"
  shows "url_Parse (''https://'' @ (ui @ ''@'' @ h) @ ''/'' @ p) = url_Parse (''https://'' @ h @ ''/'' @ p)"
proof -
  have "list_all (\<lambda>c. \<not> ctl_byte c \<and> c \<notin> set ''/#?'') (ui @ ''@'' @ h)"
    using userinfo_authority_chars [OF ui(1)] list_all_dns_authority [OF h]
    by (simp add: ctl_byte_def byte_def)
  from url_Parse_https [OF this p] parseAuthority_userinfo [OF h ui] https_url_host(1) [OF h p]
  show ?thesis by simp
qed

section \<open>Salesforce hosts are no IP literals\<close>

lemma ipv4_fields_chars:
  "ipv4_fields s v d acc = Some fs \<Longrightarrow> c \<in> set s \<Longrightarrow> is_digit c \<or> c = CHR ''.''"
  by (induction s v d acc rule: ipv4_fields.induct) (auto simp: Let_def split: if_splits)

lemma ParseIP_not_dotted:
  assumes "CHR '':'' \<notin> set h" "c \<in> set h" "\<not> is_digit c" "c \<noteq> CHR ''.''"
  shows "ParseIP h = None"
proof -
  have "parseIPv4 h = None"
    using assms ipv4_fields_chars unfolding parseIPv4_def by (metis not_None_eq)
  moreover have "ParseAddr h = None \<or> ParseAddr h = map_option F (parseIPv4 h)"
    if F: "F = (\<lambda>bs. \<lparr>ip_bytes = mapped_prefix @ bs, ip_is4 = True, ip_zone = []\<rparr>)" for F
  proof (cases "dropWhile (\<lambda>c. c \<notin> {CHR ''.'', CHR '':'', CHR ''%''}) h")
    case Nil
    show ?thesis unfolding ParseAddr_def Nil list.case by simp
  next
    case (Cons c t)
    then have "c \<in> set h" by (metis list.set_intros(1) set_dropWhileD)
    with assms(1) have "c \<noteq> CHR '':''" by auto
    then show ?thesis unfolding ParseAddr_def Cons list.case F by simp
  qed
  ultimately have "ParseAddr h = None" by simp
  then show ?thesis by (simp add: ParseIP_def)
qed

lemma salesforce_host_not_loopback:
  assumes "salesforce_host h" "CHR '':'' \<notin> set h"
  shows "\<not> isLoopbackHost h"
proof -
  from assms(1) obtain suf p where suf: "suf \<in> set salesforceHostSuffixes" "h = p @ suf"
    by (auto simp: salesforce_host_def HasSuffix_iff)
  then have m: "CHR ''m'' \<in> set h"
    by (auto simp: salesforceHostSuffixes_def)
  then have o: "h \<noteq> ''localhost''" by auto
  have "ParseIP h = None"
    by (rule ParseIP_not_dotted [OF assms(2) m]) (simp_all add: is_digit_def byte_def)
  with o show ?thesis by (simp add: isLoopbackHost_def)
qed

section \<open>What the allowlist guarantees\<close>

text \<open>
  C11. Without the operator's opt-out the allowlist admits only https URLs whose effective host,
  in lower case, ends in one of the Salesforce suffixes.
\<close>

theorem accepted_is_https_salesforce:
  assumes "validateTokenHost ul raw False = None"
  shows "\<exists>u. url_Parse raw = Inr u \<and> Scheme u = ''https'' \<and> salesforce_host (ToLower ul (Hostname u))"
  using assms by (auto simp: validateTokenHost_accepts hostOf_def)

theorem accepted_is_https_salesforce_witness:
  "\<exists>u. url_Parse ''https://login.salesforce.com/services/oauth2/token'' = Inr u \<and> Scheme u = ''https''"
proof -
  have "validateTokenHost id ''https://login.salesforce.com/services/oauth2/token'' False = None" by code_simp
  then show ?thesis using accepted_is_https_salesforce by blast
qed

lemma ascii_lower_colon:
  assumes "ascii_lower c = CHR '':''"
  shows "c = CHR '':''"
proof (cases "is_upper c")
  case True
  then have "byte (ascii_lower c) = byte c + 32" by (simp add: ascii_lower_def is_upper_def)
  moreover have "byte (CHR '':'') = 58" by (simp add: byte_def)
  ultimately show ?thesis using True assms by (simp add: is_upper_def)
next
  case False
  then show ?thesis using assms by (simp add: ascii_lower_def)
qed

text \<open>
  C31. On URLs of the shape \<^verbatim>\<open>https://host/path\<close> with a DNS name the allowlist decides by the name
  alone, whatever its case: it accepts exactly the names that end in a Salesforce suffix.
\<close>

theorem https_host_decided_by_name:
  assumes "h \<noteq> []" "list_all dns_char h" "list_all path_char p"
  shows "validateTokenHost ul (''https://'' @ h @ ''/'' @ p) False = None \<longleftrightarrow> salesforce_host (map ascii_lower h)"
proof -
  have colon: "CHR '':'' \<notin> set (map ascii_lower h)"
    using dns_no_special [OF assms(2), of "CHR '':''"] ascii_lower_colon by force
  show ?thesis
    using https_url_host [OF assms(2,3)] assms(1) salesforce_host_not_loopback [OF _ colon]
    by (auto simp: validateTokenHost_accepts)
qed

theorem https_host_decided_by_name_witness:
  "validateTokenHost id (''https://'' @ ''Login.Salesforce.COM'' @ ''/'' @ ''t'') False = None"
proof -
  have "list_all dns_char ''Login.Salesforce.COM''" "list_all path_char ''t''"
    "\<exists>suf \<in> set salesforceHostSuffixes. HasSuffix (map ascii_lower ''Login.Salesforce.COM'') suf"
    by code_simp+
  then show ?thesis
    using https_host_decided_by_name [of "''Login.Salesforce.COM''" "''t''" id] by (simp add: salesforce_host_def)
qed

text \<open>
  C30. Valid user information in an https URL cannot spoof the host: for a DNS name without a port
  and user information of valid characters without a percent sign, the verdict on
  \<^verbatim>\<open>https://user@host/path\<close> is the verdict on \<^verbatim>\<open>https://host/path\<close>, even when the user part looks
  like a Salesforce host.
\<close>

theorem userinfo_cannot_spoof_host:
  assumes "h \<noteq> []" "list_all dns_char h" "list_all path_char p" "list_all userinfo_char ui" "CHR ''%'' \<notin> set ui"
  shows "validateTokenHost ul (''https://'' @ (ui @ ''@'' @ h) @ ''/'' @ p) allow
    = validateTokenHost ul (''https://'' @ h @ ''/'' @ p) allow"
proof -
  have host: "ToLower ul h \<noteq> []"
  proof -
    have "list_all is_ascii h" using assms(2) by (rule list_all_weaken) (simp add: dns_char_props)
    then show ?thesis using assms(1) by (simp add: ToLower_ascii)
  qed
  show ?thesis
    unfolding validateTokenHost_def https_userinfo_url [OF assms(2-5)] https_url_host(1) [OF assms(2,3)]
    using host by (simp add: Hostname_dns [OF assms(2)])
qed

theorem userinfo_cannot_spoof_host_witness:
  "validateTokenHost id (''https://'' @ (''login.salesforce.com'' @ ''@'' @ ''evil.example.com'') @ ''/'' @ ''t'') False
    = Some (NotSalesforceHost ''evil.example.com'')"
proof -
  have "list_all dns_char ''evil.example.com''" "list_all path_char ''t''" "list_all userinfo_char ''login.salesforce.com''"
    "CHR ''%'' \<notin> set ''login.salesforce.com''"
    "validateTokenHost id (''https://'' @ ''evil.example.com'' @ ''/'' @ ''t'') False
      = Some (NotSalesforceHost ''evil.example.com'')"
    by code_simp+
  then show ?thesis
    using userinfo_cannot_spoof_host [of "''evil.example.com''" "''t''" "''login.salesforce.com''" id False] by simp
qed

end
