(* ===== verification/Go_Time.thy ===== *)
theory Go_Time
  imports Go_Strings "HOL-Library.Word"
begin

text \<open>
  Go's package \<^verbatim>\<open>time\<close> as the plugin uses it. A \<^verbatim>\<open>time.Duration\<close> is a signed 64-bit
  count of nanoseconds: an \<^typ>\<open>int\<close> on which every product and negation is wrapped by
  \<open>wrap64\<close>. A \<^verbatim>\<open>time.Time\<close> is the nanoseconds since the Unix epoch; \<^verbatim>\<open>Time.Add\<close> keeps
  64-bit seconds beside the nanoseconds, so sums of an instant and a duration do not wrap
  for any instant within 290 billion years of the epoch, and instants are unbounded here.
\<close>

type_synonym Duration = int
type_synonym Time = int

section \<open>64-bit integers\<close>

definition wrap64 :: "int \<Rightarrow> int" where
  "wrap64 x = (x + 2 ^ 63) mod 2 ^ 64 - 2 ^ 63"

definition in_int64 :: "int \<Rightarrow> bool" where
  "in_int64 x = (- (2 ^ 63) \<le> x \<and> x < 2 ^ 63)"

lemma wrap64_in_int64 [simp]: "in_int64 (wrap64 x)"
  unfolding wrap64_def in_int64_def by auto

lemma wrap64_id: "in_int64 x \<Longrightarrow> wrap64 x = x"
  unfolding wrap64_def in_int64_def by auto

lemma wrap64_sint: "wrap64 x = sint (word_of_int x :: 64 word)"
proof -
  have "sint (word_of_int x :: 64 word) = signed_take_bit 63 x"
    by (simp add: signed_of_int)
  then show ?thesis
    by (simp add: wrap64_def signed_take_bit_eq_take_bit_shift take_bit_eq_mod)
qed

section \<open>Durations\<close>

definition time_Second :: Duration where
  "time_Second = 1000000000"

definition time_Minute :: Duration where
  "time_Minute = 60 * time_Second"

definition time_Millisecond :: Duration where
  "time_Millisecond = 1000000"

text \<open>\<^verbatim>\<open>time.Duration(n) * time.Second\<close>\<close>

definition secs :: "int \<Rightarrow> Duration" where
  "secs n = wrap64 (n * time_Second)"

text \<open>
  \<^verbatim>\<open>int64(d.Seconds())\<close>: the seconds as a float, truncated towards zero. On a whole number
  of seconds the float is exact, and every duration the plugin prints is one.
\<close>

definition whole_seconds :: "Duration \<Rightarrow> int" where
  "whole_seconds d = sgn d * (\<bar>d\<bar> div time_Second)"

definition max_whole_seconds :: int where
  "max_whole_seconds = 9223372036"

lemma secs_exact:
  assumes "\<bar>n\<bar> \<le> max_whole_seconds"
  shows "secs n = n * time_Second"
  unfolding secs_def using assms
  by (intro wrap64_id) (auto simp: in_int64_def max_whole_seconds_def time_Second_def)

lemma secs_in_int64 [simp]: "in_int64 (secs n)"
  by (simp add: secs_def)

lemma whole_seconds_secs:
  assumes "\<bar>n\<bar> \<le> max_whole_seconds"
  shows "whole_seconds (secs n) = n"
proof -
  have "\<bar>n * time_Second\<bar> div time_Second = \<bar>n\<bar>"
    by (simp add: abs_mult time_Second_def)
  then have "whole_seconds (n * time_Second) = sgn (n * time_Second) * \<bar>n\<bar>"
    by (simp add: whole_seconds_def)
  moreover have "sgn (n * time_Second) = sgn n"
    by (simp add: sgn_mult time_Second_def)
  ultimately show ?thesis
    using secs_exact [OF assms] by (simp add: sgn_mult_abs)
qed

section \<open>Instants\<close>

definition Time_Add :: "Time \<Rightarrow> Duration \<Rightarrow> Time" where
  "Time_Add t d = t + d"

definition Time_Before :: "Time \<Rightarrow> Time \<Rightarrow> bool" where
  "Time_Before t u = (t < u)"

definition Time_Unix :: "Time \<Rightarrow> int" where
  "Time_Unix t = t div time_Second"

lemmas time_defs [go_defs] = Time_Add_def Time_Before_def Time_Unix_def

section \<open>RFC 3339\<close>

fun dec_digits :: "nat \<Rightarrow> string" where
  "dec_digits n =
     (if n < 10 then [char_of (48 + n)] else dec_digits (n div 10) @ [char_of (48 + n mod 10)])"

declare dec_digits.simps [simp del]

definition zero_pad :: "nat \<Rightarrow> string \<Rightarrow> string" where
  "zero_pad w s = replicate (w - length s) (CHR ''0'') @ s"

definition two_digits :: "int \<Rightarrow> string" where
  "two_digits n = zero_pad 2 (dec_digits (nat n))"

definition year_digits :: "int \<Rightarrow> string" where
  "year_digits y = (if y < 0 then ''-'' else []) @ zero_pad 4 (dec_digits (nat \<bar>y\<bar>))"

text \<open>The proleptic Gregorian date (year, month, day) of a day number, day 0 being 1970-01-01.\<close>

definition civil_date :: "int \<Rightarrow> int \<times> int \<times> int" where
  "civil_date days =
     (let z = days + 719468;
          era = z div 146097;
          doe = z mod 146097;
          yoe = (doe - doe div 1460 + doe div 36524 - doe div 146096) div 365;
          doy = doe - (365 * yoe + yoe div 4 - yoe div 100);
          mp = (5 * doy + 2) div 153;
          d = doy - (153 * mp + 2) div 5 + 1;
          m = (if mp < 10 then mp + 3 else mp - 9)
      in (yoe + era * 400 + (if m \<le> 2 then 1 else 0), m, d))"

text \<open>\<^verbatim>\<open>t.UTC().Format(time.RFC3339)\<close>\<close>

definition Format_RFC3339 :: "Time \<Rightarrow> string" where
  "Format_RFC3339 t =
     (let s = Time_Unix t; r = s mod 86400
      in case civil_date (s div 86400) of (y, m, d) \<Rightarrow>
         year_digits y @ ''-'' @ two_digits m @ ''-'' @ two_digits d @ ''T'' @
         two_digits (r div 3600) @ '':'' @ two_digits (r mod 3600 div 60) @ '':'' @
         two_digits (r mod 60) @ ''Z'')"

end
