(* ===== verification/Go_Json.thy ===== *)
theory Go_Json
  imports Go_Net Go_Time
begin

text \<open>
  Go's package \<^verbatim>\<open>encoding/json\<close> as the client uses it: \<^verbatim>\<open>json.Unmarshal\<close> of a response body
  into a struct of string and int fields. The parser follows the scanner of the package
  (RFC 8259 values, at most 10000 levels deep); strings are decoded to UTF-8 with invalid
  bytes and unpaired surrogates replaced by U+FFFD; object keys select a struct field
  regardless of case; a value of the wrong type makes the call fail.
\<close>

datatype json =
    JNull
  | JBool bool
  | JNum string
  | JStr string
  | JArr "json list"
  | JObj "(string \<times> json) list"

section \<open>Strings\<close>

definition encode_rune :: "nat \<Rightarrow> string" where
  "encode_rune r =
     (if r < 128 then [char_of r]
      else if r < 2048 then [char_of (192 + r div 64), char_of (128 + r mod 64)]
      else if r < 65536 then
        [char_of (224 + r div 4096), char_of (128 + r div 64 mod 64), char_of (128 + r mod 64)]
      else
        [char_of (240 + r div 262144), char_of (128 + r div 4096 mod 64),
         char_of (128 + r div 64 mod 64), char_of (128 + r mod 64)])"

definition rune_error :: string where
  "rune_error = encode_rune 65533"

definition is_surrogate :: "nat \<Rightarrow> bool" where
  "is_surrogate r = (55296 \<le> r \<and> r < 57344)"

text \<open>The four hexadecimal digits of a \<^verbatim>\<open>\u\<close> escape.\<close>

fun hex4 :: "string \<Rightarrow> (nat \<times> string) option" where
  "hex4 (a # b # c # d # s) =
     (if is_hex a \<and> is_hex b \<and> is_hex c \<and> is_hex d then Some (hex_value [a, b, c, d], s) else None)"
| "hex4 _ = None"

definition low_surrogate :: "string \<Rightarrow> (nat \<times> string) option" where
  "low_surrogate s = (if HasPrefix s [CHR 0x5C, CHR ''u''] then hex4 (drop 2 s) else None)"

definition unicode_escape :: "string \<Rightarrow> (string \<times> string) option" where
  "unicode_escape s = (case hex4 s of
      None \<Rightarrow> None
    | Some (r, t) \<Rightarrow>
        if \<not> is_surrogate r then Some (encode_rune r, t)
        else (case low_surrogate t of
            Some (r1, u) \<Rightarrow>
              if r < 56320 \<and> 56320 \<le> r1 \<and> r1 < 57344
              then Some (encode_rune (65536 + (r - 55296) * 1024 + (r1 - 56320)), u)
              else Some (rune_error, t)
          | None \<Rightarrow> Some (rune_error, t)))"

definition simple_escape :: "char \<Rightarrow> char option" where
  "simple_escape e =
     map_of [(CHR 0x22, CHR 0x22), (CHR 0x5C, CHR 0x5C), (CHR ''/'', CHR ''/''),
       (CHR ''b'', CHR 0x08), (CHR ''f'', CHR 0x0C), (CHR ''n'', CHR 0x0A),
       (CHR ''r'', CHR 0x0D), (CHR ''t'', CHR 0x09)] e"

text \<open>One character of a string literal: its decoded bytes and the rest.\<close>

definition p_char :: "string \<Rightarrow> (string \<times> string) option" where
  "p_char s = (case s of
      [] \<Rightarrow> None
    | c # t \<Rightarrow>
        if c = CHR 0x5C then
          (case t of
             [] \<Rightarrow> None
           | e # u \<Rightarrow>
               if e = CHR ''u'' then unicode_escape u
               else map_option (\<lambda>d. ([d], u)) (simple_escape e))
        else if byte c < 32 then None
        else if utf8_width s = 0 then Some (rune_error, t)
        else Some (take (utf8_width s) s, drop (utf8_width s) s))"

lemma hex4_shorter: "hex4 s = Some (r, t) \<Longrightarrow> length t < length s"
  by (induction s rule: hex4.induct) (auto split: if_splits)

lemma unicode_escape_shorter: "unicode_escape s = Some (d, t) \<Longrightarrow> length t < length s"
  by (auto simp: unicode_escape_def low_surrogate_def dest!: hex4_shorter
      split: option.splits if_splits prod.splits)

lemma p_char_shorter: "p_char s = Some (d, t) \<Longrightarrow> length t < length s"
  by (auto simp: p_char_def dest!: unicode_escape_shorter simp del: utf8_width.simps
      split: list.splits if_splits)

text \<open>The rest of a string literal, after its opening quote.\<close>

function p_str :: "string \<Rightarrow> (string \<times> string) option" where
  "p_str s = (case s of
      [] \<Rightarrow> None
    | c # t \<Rightarrow>
        if c = CHR 0x22 then Some ([], t)
        else case p_char s of
            None \<Rightarrow> None
          | Some (d, u) \<Rightarrow> map_option (\<lambda>(v, w). (d @ v, w)) (p_str u))"
  by pat_completeness auto
termination
  by (relation "measure length") (auto dest!: p_char_shorter)

declare p_str.simps [simp del]

section \<open>Values\<close>

definition json_space :: "char \<Rightarrow> bool" where
  "json_space c = (byte c \<in> {9, 10, 13, 32})"

definition skip_ws :: "string \<Rightarrow> string" where
  "skip_ws s = dropWhile json_space s"

definition p_digits1 :: "string \<Rightarrow> (string \<times> string) option" where
  "p_digits1 s = (let d = takeWhile is_digit s in if d = [] then None else Some (d, dropWhile is_digit s))"

definition p_int :: "string \<Rightarrow> (string \<times> string) option" where
  "p_int s = (case s of
      c # t \<Rightarrow> if c = CHR ''0'' then Some ([c], t) else p_digits1 s
    | [] \<Rightarrow> None)"

definition p_frac :: "string \<Rightarrow> (string \<times> string) option" where
  "p_frac s = (case s of
      c # t \<Rightarrow> if c = CHR ''.'' then map_option (\<lambda>(d, u). (c # d, u)) (p_digits1 t) else Some ([], s)
    | [] \<Rightarrow> Some ([], []))"

definition p_exp :: "string \<Rightarrow> (string \<times> string) option" where
  "p_exp s = (case s of
      c # t \<Rightarrow>
        if c = CHR ''e'' \<or> c = CHR ''E'' then
          (case t of
             sg # u \<Rightarrow> if sg = CHR ''+'' \<or> sg = CHR ''-''
               then map_option (\<lambda>(d, v). (c # sg # d, v)) (p_digits1 u)
               else map_option (\<lambda>(d, v). (c # d, v)) (p_digits1 t)
           | [] \<Rightarrow> None)
        else Some ([], s)
    | [] \<Rightarrow> Some ([], []))"

definition p_number :: "string \<Rightarrow> (string \<times> string) option" where
  "p_number s =
     (let (sign, s1) = (if HasPrefix s ''-'' then (''-'', tl s) else ([], s))
      in Option.bind (p_int s1) (\<lambda>(i, s2).
         Option.bind (p_frac s2) (\<lambda>(f, s3).
         Option.bind (p_exp s3) (\<lambda>(e, s4). Some (sign @ i @ f @ e, s4)))))"

definition max_depth :: nat where
  "max_depth = 10000"

text \<open>
  Values, array elements and object members. The first argument is fuel: every call
  consumes a byte of the text before the next call on the same level, and
  \<open>json_parse\<close> gives twice the length of the text.
\<close>

fun p_value :: "nat \<Rightarrow> nat \<Rightarrow> string \<Rightarrow> (json \<times> string) option"
  and p_elems :: "nat \<Rightarrow> nat \<Rightarrow> string \<Rightarrow> (json list \<times> string) option"
  and p_members :: "nat \<Rightarrow> nat \<Rightarrow> string \<Rightarrow> ((string \<times> json) list \<times> string) option" where
  "p_value 0 d s = None"
| "p_value (Suc n) d s = (case skip_ws s of
      [] \<Rightarrow> None
    | c # t \<Rightarrow>
        if c = CHR ''{'' then
          (if max_depth \<le> d then None
           else if HasPrefix (skip_ws t) ''}'' then Some (JObj [], tl (skip_ws t))
           else map_option (\<lambda>(ms, u). (JObj ms, u)) (p_members n (Suc d) t))
        else if c = CHR ''['' then
          (if max_depth \<le> d then None
           else if HasPrefix (skip_ws t) '']'' then Some (JArr [], tl (skip_ws t))
           else map_option (\<lambda>(vs, u). (JArr vs, u)) (p_elems n (Suc d) t))
        else if c = CHR 0x22 then map_option (\<lambda>(v, u). (JStr v, u)) (p_str t)
        else if HasPrefix (c # t) ''null'' then Some (JNull, drop 4 (c # t))
        else if HasPrefix (c # t) ''true'' then Some (JBool True, drop 4 (c # t))
        else if HasPrefix (c # t) ''false'' then Some (JBool False, drop 5 (c # t))
        else map_option (\<lambda>(v, u). (JNum v, u)) (p_number (c # t)))"
| "p_elems 0 d s = None"
| "p_elems (Suc n) d s = Option.bind (p_value n d s) (\<lambda>(v, t).
     case skip_ws t of
       c # u \<Rightarrow> if c = CHR '','' then map_option (\<lambda>(vs, w). (v # vs, w)) (p_elems n d u)
                else if c = CHR '']'' then Some ([v], u) else None
     | [] \<Rightarrow> None)"
| "p_members 0 d s = None"
| "p_members (Suc n) d s = (case skip_ws s of
      q # s1 \<Rightarrow> if q \<noteq> CHR 0x22 then None else Option.bind (p_str s1) (\<lambda>(k, s2).
        case skip_ws s2 of
          col # s3 \<Rightarrow> if col \<noteq> CHR '':'' then None else Option.bind (p_value n d s3) (\<lambda>(v, t).
            case skip_ws t of
              c # u \<Rightarrow> if c = CHR '','' then map_option (\<lambda>(ms, w). ((k, v) # ms, w)) (p_members n d u)
                       else if c = CHR ''}'' then Some ([(k, v)], u) else None
            | [] \<Rightarrow> None)
        | [] \<Rightarrow> None)
    | [] \<Rightarrow> None)"

definition json_parse :: "string \<Rightarrow> json option" where
  "json_parse s = (case p_value (2 * length s + 2) 0 s of
      Some (v, rest) \<Rightarrow> if skip_ws rest = [] then Some v else None
    | None \<Rightarrow> None)"

section \<open>Decoding into struct fields\<close>

text \<open>
  \<^verbatim>\<open>foldName\<close>: two keys select the same field when their folds agree. Besides ASCII case,
  U+017F folds to S and U+212A to K.
\<close>

definition ascii_upper :: "char \<Rightarrow> char" where
  "ascii_upper c = (if is_lower c then char_of (byte c - 32) else c)"

fun foldName :: "string \<Rightarrow> string" where
  "foldName [] = []"
| "foldName (a # s) =
     (case s of
        b # t \<Rightarrow>
          if byte a = 197 \<and> byte b = 191 then CHR ''S'' # foldName t
          else (case t of
              c # u \<Rightarrow> if byte a = 226 \<and> byte b = 132 \<and> byte c = 170 then CHR ''K'' # foldName u
                       else ascii_upper a # foldName s
            | [] \<Rightarrow> ascii_upper a # foldName s)
      | [] \<Rightarrow> [ascii_upper a])"

text \<open>
  The store of one member into a string or an int field. The result is the new value and
  whether the member was of the wrong type, which makes \<^verbatim>\<open>Unmarshal\<close> return an error.
\<close>

definition store_string :: "json \<Rightarrow> string \<Rightarrow> string \<times> bool" where
  "store_string j old = (case j of JStr v \<Rightarrow> (v, False) | JNull \<Rightarrow> (old, False) | _ \<Rightarrow> (old, True))"

definition dec_value :: "string \<Rightarrow> int" where
  "dec_value ds = foldl (\<lambda>acc c. acc * 10 + int (byte c - 48)) 0 ds"

definition ParseInt64 :: "string \<Rightarrow> int option" where
  "ParseInt64 lit =
     (let neg = HasPrefix lit ''-''; ds = (if neg then tl lit else lit);
          v = (if neg then - dec_value ds else dec_value ds)
      in if ds = [] \<or> \<not> list_all is_digit ds \<or> \<not> in_int64 v then None else Some v)"

definition store_int :: "json \<Rightarrow> int \<Rightarrow> int \<times> bool" where
  "store_int j old = (case j of
      JNum lit \<Rightarrow> (case ParseInt64 lit of Some v \<Rightarrow> (v, False) | None \<Rightarrow> (old, True))
    | JNull \<Rightarrow> (old, False)
    | _ \<Rightarrow> (old, True))"

text \<open>
  \<^verbatim>\<open>json.Unmarshal(body, &parsed)\<close> into a struct, given how one member is stored. \<open>None\<close> is
  an error: invalid syntax, a value that is no object, or a member of the wrong type.
\<close>

fun store_members :: "(string \<Rightarrow> json \<Rightarrow> 'a \<Rightarrow> 'a \<times> bool) \<Rightarrow> (string \<times> json) list \<Rightarrow> 'a \<Rightarrow> 'a \<times> bool" where
  "store_members st [] x = (x, False)"
| "store_members st ((k, v) # ms) x =
     (case st (foldName k) v x of (y, bad) \<Rightarrow>
        case store_members st ms y of (z, bad') \<Rightarrow> (z, bad \<or> bad'))"

definition Unmarshal :: "(string \<Rightarrow> json \<Rightarrow> 'a \<Rightarrow> 'a \<times> bool) \<Rightarrow> 'a \<Rightarrow> string \<Rightarrow> 'a option" where
  "Unmarshal st zero body = (case json_parse body of
      Some (JObj ms) \<Rightarrow> (case store_members st ms zero of (x, bad) \<Rightarrow> if bad then None else Some x)
    | Some JNull \<Rightarrow> Some zero
    | _ \<Rightarrow> None)"

section \<open>Decoded strings are valid UTF-8\<close>

lemma utf8_width_append:
  assumes "0 < utf8_width s"
  shows "utf8_width (s @ t) = utf8_width s"
proof (cases s)
  case (Cons a u)
  have w: "utf8_width (a # u) \<noteq> 0" using assms Cons by simp
  consider "byte a < 128" | "194 \<le> byte a" "byte a \<le> 223" | "224 \<le> byte a" "byte a \<le> 239"
    | "240 \<le> byte a" "byte a \<le> 244"
    using w by (cases "byte a < 128 \<or> 194 \<le> byte a \<and> byte a \<le> 223 \<or> 224 \<le> byte a \<and> byte a \<le> 239
      \<or> 240 \<le> byte a \<and> byte a \<le> 244") auto
  then show ?thesis
    using w unfolding Cons
    by cases (auto split: list.split_asm list.split if_split_asm)
qed (use assms in simp)

lemma utf8_width_le: "utf8_width s \<le> length s"
  by (cases s rule: utf8_width.cases) (auto split: list.splits)

lemma utf8_width_take: "utf8_width (take (utf8_width s) s) = utf8_width s"
  by (cases s rule: utf8_width.cases) (auto split: list.splits)

lemma ValidString_Nil [simp]: "ValidString []"
  by (simp add: ValidString.simps)

lemma ValidString_append: "ValidString s \<Longrightarrow> ValidString t \<Longrightarrow> ValidString (s @ t)"
proof (induction s rule: ValidString.induct)
  case (1 s)
  show ?case
  proof (cases "s = []")
    case False
    with 1(2) have w: "0 < utf8_width s" and rest: "ValidString (drop (utf8_width s) s)"
      by (auto simp: ValidString.simps [of s] split: if_splits)
    with 1 False have "ValidString (drop (utf8_width s) s @ t)" by blast
    then show ?thesis
      using w False utf8_width_le [of s]
      by (simp add: ValidString.simps [of "s @ t"] utf8_width_append)
  qed (simp add: 1)
qed

lemma ValidString_rune: "0 < utf8_width d \<Longrightarrow> utf8_width d = length d \<Longrightarrow> ValidString d"
  by (subst ValidString.simps) simp

definition scalar :: "nat \<Rightarrow> bool" where
  "scalar r \<longleftrightarrow> r < 1114112 \<and> \<not> is_surrogate r"

lemma encode_rune_width: "scalar r \<Longrightarrow> utf8_width (encode_rune r) = length (encode_rune r)"
proof -
  assume r: "scalar r"
  consider "r < 128" | "128 \<le> r" "r < 2048" | "2048 \<le> r" "r < 65536" | "65536 \<le> r" by linarith
  then show "utf8_width (encode_rune r) = length (encode_rune r)"
  proof cases
    case 1
    then show ?thesis by (simp add: encode_rune_def byte_char_of)
  next
    case 2
    then have "2 \<le> r div 64" "r div 64 < 32" by linarith+
    with 2 show ?thesis by (simp add: encode_rune_def byte_char_of cont_byte_def)
  next
    case 3
    then have hi: "r div 4096 < 16" by linarith
    have mid: "r div 4096 = 0 \<Longrightarrow> 32 \<le> r div 64 mod 64" "r div 4096 = 13 \<Longrightarrow> r div 64 mod 64 \<le> 31"
    proof -
      have q: "r div 4096 = r div 64 div 64" by (simp flip: div_mult2_eq)
      have "r < 55296 \<or> 57344 \<le> r"
        using r by (auto simp: scalar_def is_surrogate_def)
      then have "r div 64 < 864 \<or> 896 \<le> r div 64" by linarith
      moreover have "32 \<le> r div 64" using 3 by linarith
      ultimately show "r div 4096 = 0 \<Longrightarrow> 32 \<le> r div 64 mod 64" "r div 4096 = 13 \<Longrightarrow> r div 64 mod 64 \<le> 31"
        using mult_div_mod_eq [of 64 "r div 64"] 3(2) unfolding q by linarith+
    qed
    have "cont_byte (char_of (128 + r div 64 mod 64))" "cont_byte (char_of (128 + r mod 64))"
      by (simp_all add: byte_char_of cont_byte_def)
    with 3 hi mid show ?thesis by (simp add: encode_rune_def byte_char_of)
  next
    case 4
    then have hi: "r div 262144 \<le> 4" using r unfolding scalar_def by linarith
    have mid: "r div 262144 = 0 \<Longrightarrow> 16 \<le> r div 4096 mod 64" "r div 262144 = 4 \<Longrightarrow> r div 4096 mod 64 \<le> 15"
    proof -
      have q: "r div 262144 = r div 4096 div 64" by (simp flip: div_mult2_eq)
      have "16 \<le> r div 4096" "r div 4096 < 272"
        using 4 r unfolding scalar_def by linarith+
      then show "r div 262144 = 0 \<Longrightarrow> 16 \<le> r div 4096 mod 64" "r div 262144 = 4 \<Longrightarrow> r div 4096 mod 64 \<le> 15"
        using mult_div_mod_eq [of 64 "r div 4096"] unfolding q by linarith+
    qed
    have "cont_byte (char_of (128 + r div 4096 mod 64))" "cont_byte (char_of (128 + r div 64 mod 64))"
      "cont_byte (char_of (128 + r mod 64))"
      by (simp_all add: byte_char_of cont_byte_def)
    with 4 hi mid show ?thesis by (simp add: encode_rune_def byte_char_of)
  qed
qed

lemma encode_rune_valid: "scalar r \<Longrightarrow> ValidString (encode_rune r)"
  using encode_rune_width by (intro ValidString_rune) (auto simp: encode_rune_def)

lemma rune_error_valid: "ValidString rune_error"
  unfolding rune_error_def by (rule encode_rune_valid) (simp add: scalar_def is_surrogate_def)

lemma unhex_bound: "is_hex c \<Longrightarrow> unhex c < 16"
  by (auto simp: is_hex_def unhex_def is_digit_def)

lemma hex4_bound: "hex4 s = Some (r, t) \<Longrightarrow> r < 65536"
  by (cases s rule: hex4.cases)
    (auto simp: hex_value_def dest!: unhex_bound split: if_splits)

lemma unicode_escape_valid:
  assumes "unicode_escape s = Some (d, t)"
  shows "ValidString d"
proof -
  obtain r u where h: "hex4 s = Some (r, u)"
    using assms by (auto simp: unicode_escape_def split: option.splits)
  have pair: "scalar (65536 + (r - 55296) * 1024 + (r1 - 56320))"
    if "is_surrogate r" "r < 56320" "56320 \<le> r1" "r1 < 57344" for r1
    using that by (auto simp: scalar_def is_surrogate_def)
  have "\<not> is_surrogate r \<Longrightarrow> scalar r"
    using hex4_bound [OF h] by (simp add: scalar_def)
  then show ?thesis
    using assms h pair
    by (auto simp: unicode_escape_def split: option.splits if_splits prod.splits
        intro: encode_rune_valid rune_error_valid)
qed

lemma simple_escape_valid: "simple_escape e = Some d \<Longrightarrow> ValidString [d]"
  by (rule ValidString_ascii)
    (auto simp: simple_escape_def is_ascii_def byte_def split: if_splits)

lemma p_char_valid: "p_char s = Some (d, t) \<Longrightarrow> ValidString d"
  using utf8_width_take [of s] utf8_width_le [of s]
  by (auto simp: p_char_def simp del: utf8_width.simps split: list.splits if_splits
      intro: rune_error_valid unicode_escape_valid simple_escape_valid ValidString_rune)

lemma p_str_valid: "p_str s = Some (v, t) \<Longrightarrow> ValidString v"
proof (induction s arbitrary: v t rule: p_str.induct)
  case (1 s)
  then show ?case
    by (subst (asm) (2) p_str.simps)
      (auto split: list.splits if_splits option.splits intro!: ValidString_append dest: p_char_valid)
qed

text \<open>Every string of a parsed value is valid.\<close>

fun json_text :: "json \<Rightarrow> bool" where
  "json_text (JStr v) = ValidString v"
| "json_text (JArr vs) = (\<forall>v \<in> set vs. json_text v)"
| "json_text (JObj ms) = (\<forall>m \<in> set ms. json_text (snd m))"
| "json_text _ = True"

text \<open>A successful parse of elements or members, taken apart.\<close>

lemma p_elems_SomeE:
  assumes "p_elems (Suc n) d s = Some (vs, t)"
  obtains v u c w where "p_value n d s = Some (v, u)" "skip_ws u = c # w"
    "(if c = CHR '','' then map_option (\<lambda>(vs, w). (v # vs, w)) (p_elems n d w)
       else if c = CHR '']'' then Some ([v], w) else None) = Some (vs, t)"
proof -
  from assms obtain v u where v: "p_value n d s = Some (v, u)"
    by (auto simp: bind_eq_Some_conv)
  with assms that show thesis by (cases "skip_ws u") auto
qed

lemma p_members_SomeE:
  assumes "p_members (Suc n) d s = Some (ms, t)"
  obtains q s1 k s2 col s3 v u c w where "skip_ws s = q # s1" "\<not> q \<noteq> CHR 0x22"
    "p_str s1 = Some (k, s2)" "skip_ws s2 = col # s3" "\<not> col \<noteq> CHR '':''"
    "p_value n d s3 = Some (v, u)" "skip_ws u = c # w"
    "(if c = CHR '','' then map_option (\<lambda>(ms, w). ((k, v) # ms, w)) (p_members n d w)
       else if c = CHR ''}'' then Some ([(k, v)], w) else None) = Some (ms, t)"
proof -
  from assms obtain q s1 where s1: "skip_ws s = q # s1" "\<not> q \<noteq> CHR 0x22"
    by (cases "skip_ws s") (auto split: if_split_asm)
  with assms obtain k s2 where k: "p_str s1 = Some (k, s2)"
    by (auto simp: bind_eq_Some_conv)
  with assms s1 obtain col s3 where s2: "skip_ws s2 = col # s3" "\<not> col \<noteq> CHR '':''"
    by (cases "skip_ws s2") (auto split: if_split_asm)
  with assms s1 k obtain v u where v: "p_value n d s3 = Some (v, u)"
    by (auto simp: bind_eq_Some_conv)
  with assms s1 k s2 that [OF s1 k s2 v] show thesis by (cases "skip_ws u") auto
qed

lemma parsed_text:
  "p_value n d s = Some (v, t) \<Longrightarrow> json_text v"
  "p_elems n d s = Some (vs, t) \<Longrightarrow> \<forall>v \<in> set vs. json_text v"
  "p_members n d s = Some (ms, t) \<Longrightarrow> \<forall>m \<in> set ms. json_text (snd m)"
proof (induction n d s and n d s and n d s arbitrary: v t and vs t and ms t
    rule: p_value_p_elems_p_members.induct)
  case (2 n d s)
  then show ?case
    by (auto split: list.splits if_splits dest: p_str_valid)
next
  case (4 n d s)
  obtain v u c w where v: "p_value n d s = Some (v, u)" and u: "skip_ws u = c # w"
    and r: "(if c = CHR '','' then map_option (\<lambda>(vs, w). (v # vs, w)) (p_elems n d w)
       else if c = CHR '']'' then Some ([v], w) else None) = Some (vs, t)"
    using 4(3) by (rule p_elems_SomeE)
  from r 4(1) [OF v] 4(2) [OF v refl u] show ?case by (auto split: if_splits)
next
  case (6 n d s)
  obtain q s1 k s2 col s3 v u c w where s1: "skip_ws s = q # s1" "\<not> q \<noteq> CHR 0x22"
    and k: "p_str s1 = Some (k, s2)" and s2: "skip_ws s2 = col # s3" "\<not> col \<noteq> CHR '':''"
    and v: "p_value n d s3 = Some (v, u)" and u: "skip_ws u = c # w"
    and r: "(if c = CHR '','' then map_option (\<lambda>(ms, w). ((k, v) # ms, w)) (p_members n d w)
       else if c = CHR ''}'' then Some ([(k, v)], w) else None) = Some (ms, t)"
    using 6(3) by (rule p_members_SomeE)
  from r 6(1) [OF s1 k refl s2 v] 6(2) [OF s1 k refl s2 v refl u] show ?case
    by (fastforce split: if_splits)
qed simp_all

lemma json_parse_text: "json_parse s = Some v \<Longrightarrow> json_text v"
  by (auto simp: json_parse_def simp del: p_value.simps dest: parsed_text(1) split: option.splits if_splits)

text \<open>What a member store preserves, a whole decoding preserves.\<close>

lemma store_members_keeps:
  assumes "\<And>k v x. json_text v \<Longrightarrow> Q x \<Longrightarrow> Q (fst (st k v x))" "\<forall>m \<in> set ms. json_text (snd m)" "Q x"
  shows "Q (fst (store_members st ms x))"
  using assms(2,3)
proof (induction ms arbitrary: x)
  case (Cons m ms)
  obtain k v where m: "m = (k, v)" by fastforce
  have "Q (fst (store_members st ms (fst (st (foldName k) v x))))"
    using Cons m assms(1) by simp
  then show ?case by (simp add: m case_prod_unfold)
qed simp

lemma Unmarshal_keeps:
  assumes "\<And>k v x. json_text v \<Longrightarrow> Q x \<Longrightarrow> Q (fst (st k v x))" "Q zero" "Unmarshal st zero body = Some y"
  shows "Q y"
proof -
  have "Q (fst (store_members st ms zero))" if "json_parse body = Some (JObj ms)" for ms
    using store_members_keeps [of Q st ms zero] json_parse_text [OF that] assms(1,2) by simp
  then show ?thesis
    using assms(2,3) by (fastforce simp: Unmarshal_def split: option.splits json.splits prod.splits if_splits)
qed

section \<open>The fuel is enough\<close>

text \<open>
  More fuel than twice the remaining text (plus one for a list of members or elements)
  never changes a result, so \<open>json_parse\<close> is the parser without fuel.
\<close>

lemma skip_ws_length: "length (skip_ws s) \<le> length s"
  by (simp add: skip_ws_def length_dropWhile_le)

lemma p_str_shorter: "p_str s = Some (v, t) \<Longrightarrow> length t < length s"
proof (induction s arbitrary: v t rule: p_str.induct)
  case (1 s)
  show ?case
  proof (cases s)
    case (Cons c u)
    show ?thesis
    proof (cases "c = CHR 0x22")
      case False
      with 1(2) Cons obtain d w v' where d: "p_char s = Some (d, w)" and w: "p_str w = Some (v', t)"
        by (subst (asm) p_str.simps) (auto split: option.splits)
      show ?thesis using 1(1) [OF Cons False d refl w] p_char_shorter [OF d] by simp
    qed (use 1(2) Cons in \<open>subst (asm) p_str.simps, simp\<close>)
  qed (use 1(2) in \<open>subst (asm) p_str.simps, simp\<close>)
qed

lemma p_digits1_shorter: "p_digits1 s = Some (d, t) \<Longrightarrow> length t < length s"
  by (cases s) (auto simp: p_digits1_def Let_def le_imp_less_Suc length_dropWhile_le split: if_splits)

lemma p_number_shorter:
  assumes "p_number s = Some (d, t)"
  shows "length t < length s"
proof -
  obtain sg s1 where s1: "(if HasPrefix s ''-'' then (''-'', tl s) else ([], s)) = (sg, s1)" by fastforce
  with assms obtain i s2 f s3 e where i: "p_int s1 = Some (i, s2)" and f: "p_frac s2 = Some (f, s3)"
    and e: "p_exp s3 = Some (e, t)"
    by (auto simp: p_number_def Let_def bind_eq_Some_conv)
  have "length s1 \<le> length s" using s1 by (auto split: if_splits)
  moreover have "length s2 < length s1"
    using i by (auto simp: p_int_def split: list.splits if_splits dest: p_digits1_shorter)
  moreover have "length s3 \<le> length s2"
    using f by (auto simp: p_frac_def split: list.splits if_splits dest: p_digits1_shorter)
  moreover have "length t \<le> length s3"
    using e by (auto simp: p_exp_def split: list.splits if_splits dest!: p_digits1_shorter)
  ultimately show ?thesis by simp
qed

lemma parsed_shorter:
  "p_value n d s = Some (v, t) \<Longrightarrow> length t < length s"
  "p_elems n d s = Some (vs, t) \<Longrightarrow> length t < length s"
  "p_members n d s = Some (ms, t) \<Longrightarrow> length t < length s"
proof (induction n d s and n d s and n d s arbitrary: v t and vs t and ms t
    rule: p_value_p_elems_p_members.induct)
  case (2 n d s)
  from 2(3) obtain c u where cu: "skip_ws s = c # u" by (cases "skip_ws s") auto
  have u: "length u < length s" using skip_ws_length [of s] cu by simp
  have tl: "length (tl (skip_ws u)) \<le> length u" using skip_ws_length [of u] by simp
  have "length t < Suc (length u)"
    using 2(3) cu tl 2(1,2) [OF cu]
    by (auto split: if_splits dest!: p_str_shorter p_number_shorter)
  then show ?case using u by simp
next
  case (4 n d s)
  obtain v u c w where v: "p_value n d s = Some (v, u)" and u: "skip_ws u = c # w"
    and r: "(if c = CHR '','' then map_option (\<lambda>(vs, w). (v # vs, w)) (p_elems n d w)
       else if c = CHR '']'' then Some ([v], w) else None) = Some (vs, t)"
    using 4(3) by (rule p_elems_SomeE)
  have "length w < length u" using skip_ws_length [of u] u by simp
  with r 4(1) [OF v] 4(2) [OF v refl u] show ?case by (fastforce split: if_splits)
next
  case (6 n d s)
  obtain q s1 k s2 col s3 v u c w where s1: "skip_ws s = q # s1" "\<not> q \<noteq> CHR 0x22"
    and k: "p_str s1 = Some (k, s2)" and s2: "skip_ws s2 = col # s3" "\<not> col \<noteq> CHR '':''"
    and v: "p_value n d s3 = Some (v, u)" and u: "skip_ws u = c # w"
    and r: "(if c = CHR '','' then map_option (\<lambda>(ms, w). ((k, v) # ms, w)) (p_members n d w)
       else if c = CHR ''}'' then Some ([(k, v)], w) else None) = Some (ms, t)"
    using 6(3) by (rule p_members_SomeE)
  have "length w < length u" "length s3 < length s2" "length s1 < length s"
    using skip_ws_length [of u] skip_ws_length [of s2] skip_ws_length [of s] u s2 s1 by simp_all
  with r 6(1) [OF s1 k refl s2 v] 6(2) [OF s1 k refl s2 v refl u] p_str_shorter [OF k]
  show ?case by (fastforce split: if_splits)
qed simp_all

lemma bind_cong_Some: "x = y \<Longrightarrow> (\<And>z. y = Some z \<Longrightarrow> f z = g z) \<Longrightarrow> Option.bind x f = Option.bind y g"
  by (cases y) auto

lemma fuel_step:
  "2 * length s + 1 \<le> n \<Longrightarrow> p_value n d s = p_value (Suc n) d s"
  "2 * length s + 2 \<le> n \<Longrightarrow> p_elems n d s = p_elems (Suc n) d s"
  "2 * length s + 2 \<le> n \<Longrightarrow> p_members n d s = p_members (Suc n) d s"
proof (induction n arbitrary: s d)
  case (Suc n)
  note del = p_value.simps p_elems.simps p_members.simps
  {
    case 1
    have "p_elems n (Suc d) t = p_elems (Suc n) (Suc d) t" "p_members n (Suc d) t = p_members (Suc n) (Suc d) t"
      if "skip_ws s = c # t" for c t
      using Suc(2,3) [of t "Suc d"] skip_ws_length [of s] that 1 by simp_all
    then show ?case
      unfolding p_value.simps by (intro list.case_cong refl) auto
  next
    case 2
    have v: "p_value n d s = p_value (Suc n) d s" using Suc(1) 2 by simp
    have e: "p_elems n d w = p_elems (Suc n) d w"
      if "p_value (Suc n) d s = Some (v, u)" "skip_ws u = c # w" for v u c w
      using Suc(2) [of w d] parsed_shorter(1) [OF that(1)] skip_ws_length [of u] that(2) 2 by simp
    show ?case
      unfolding p_elems.simps(2) [of n d s] p_elems.simps(2) [of "Suc n" d s]
      by (rule bind_cong_Some [OF v]) (auto simp del: del split: list.split simp: e)
  next
    case 3
    have v: "p_value n d s3 = p_value (Suc n) d s3"
      and m: "p_value (Suc n) d s3 = Some (v, u) \<Longrightarrow> skip_ws u = c # w \<Longrightarrow> p_members n d w = p_members (Suc n) d w"
      if "skip_ws s = q # s1" "p_str s1 = Some (k, s2)" "skip_ws s2 = col # s3" for q s1 k s2 col s3 v u c w
    proof -
      have le: "length s3 \<le> length s"
        using p_str_shorter [OF that(2)] skip_ws_length [of s] skip_ws_length [of s2] that by simp
      then show "p_value n d s3 = p_value (Suc n) d s3" using Suc(1) [of s3 d] 3 by simp
      show "p_members n d w = p_members (Suc n) d w"
        if "p_value (Suc n) d s3 = Some (v, u)" "skip_ws u = c # w"
        using Suc(3) [of w d] parsed_shorter(1) [OF that(1)] skip_ws_length [of u] that le 3 by simp
    qed
    show ?case
      unfolding p_members.simps(2) [of n d s] p_members.simps(2) [of "Suc n" d s]
      by (auto simp del: del split: list.split intro!: bind_cong_Some simp: v m)
  }
qed simp_all

lemma fuel_enough:
  assumes "2 * length s + 1 \<le> n"
  shows "p_value (n + k) d s = p_value n d s"
proof (induction k)
  case (Suc k)
  then show ?case using fuel_step(1) [of s "n + k" d] assms by simp
qed simp

lemma json_parse_fuel:
  assumes "2 * length s + 2 \<le> n"
  shows "json_parse s = (case p_value n 0 s of
      Some (v, rest) \<Rightarrow> if skip_ws rest = [] then Some v else None
    | None \<Rightarrow> None)"
proof -
  obtain k where "n = (2 * length s + 2) + k" using assms le_Suc_ex by blast
  moreover have "2 * length s + 1 \<le> 2 * length s + 2" by simp
  ultimately have "p_value n 0 s = p_value (2 * length s + 2) 0 s" using fuel_enough by blast
  then show ?thesis unfolding json_parse_def by (simp only:)
qed

section \<open>Encoding strings\<close>

text \<open>
  A string as \<^verbatim>\<open>json.Encoder\<close> writes it, with HTML escaping on (the default).
\<close>

definition hex_lower :: "nat \<Rightarrow> char" where
  "hex_lower n = char_of (if n < 10 then 48 + n else 87 + n)"

definition escape_byte :: "char \<Rightarrow> string" where
  "escape_byte c =
     (if c = CHR 0x22 \<or> c = CHR 0x5C then [CHR 0x5C, c]
      else if c = CHR 0x08 then [CHR 0x5C, CHR ''b'']
      else if c = CHR 0x0C then [CHR 0x5C, CHR ''f'']
      else if c = CHR 0x0A then [CHR 0x5C, CHR ''n'']
      else if c = CHR 0x0D then [CHR 0x5C, CHR ''r'']
      else if c = CHR 0x09 then [CHR 0x5C, CHR ''t'']
      else if byte c < 32 \<or> c \<in> {CHR ''<'', CHR ''>'', CHR ''&''} then
        [CHR 0x5C, CHR ''u'', CHR ''0'', CHR ''0'', hex_lower (byte c div 16), hex_lower (byte c mod 16)]
      else [c])"

text \<open>The bytes of U+2028 and U+2029, which are escaped too.\<close>

definition line_separator :: "string \<Rightarrow> bool" where
  "line_separator s \<longleftrightarrow> map byte (take 3 s) \<in> {[226, 128, 168], [226, 128, 169]}"

function json_escape :: "string \<Rightarrow> string" where
  "json_escape s = (case s of
      [] \<Rightarrow> []
    | c # t \<Rightarrow>
        if byte c < 128 then escape_byte c @ json_escape t
        else if utf8_width s = 0 then [CHR 0x5C, CHR ''u'', CHR ''f'', CHR ''f'', CHR ''f'', CHR ''d''] @ json_escape t
        else if line_separator s then
          [CHR 0x5C, CHR ''u'', CHR ''2'', CHR ''0'', CHR ''2'', hex_lower (byte (s ! 2) mod 16)] @ json_escape (drop 3 s)
        else take (utf8_width s) s @ json_escape (drop (utf8_width s) s))"
  by pat_completeness auto
termination
  by (relation "measure length") (auto simp del: utf8_width.simps)

declare json_escape.simps [simp del]

definition json_quote :: "string \<Rightarrow> string" where
  "json_quote s = [CHR 0x22] @ json_escape s @ [CHR 0x22]"

lemma hex_lower_hex: "n < 16 \<Longrightarrow> is_hex (hex_lower n) \<and> unhex (hex_lower n) = n"
  by (auto simp: hex_lower_def is_hex_def unhex_def is_digit_def)

lemma unicode_escape_small:
  assumes "n < 256"
  shows "unicode_escape (CHR ''0'' # CHR ''0'' # hex_lower (n div 16) # hex_lower (n mod 16) # t) = Some (encode_rune n, t)"
proof -
  have d: "n div 16 < 16" "n mod 16 < 16" using assms by auto
  have "is_hex (CHR ''0'')" "unhex (CHR ''0'') = 0"
    by (simp_all add: is_hex_def is_digit_def unhex_def byte_def)
  then have "hex4 (CHR ''0'' # CHR ''0'' # hex_lower (n div 16) # hex_lower (n mod 16) # t) = Some (n, t)"
    using hex_lower_hex [OF d(1)] hex_lower_hex [OF d(2)] by (simp add: hex_value_def)
  then show ?thesis using assms by (simp add: unicode_escape_def is_surrogate_def del: hex4.simps)
qed

lemma p_char_escape:
  assumes "byte c < 128"
  shows "p_char (escape_byte c @ t) = Some ([c], t)"
proof -
  have "encode_rune (byte c) = [c]" using assms by (simp add: encode_rune_def)
  then show ?thesis
    using assms unicode_escape_small [of "byte c" t]
    by (auto simp: escape_byte_def p_char_def simple_escape_def simp del: utf8_width.simps)
      (auto simp: byte_def)
qed

lemma escape_byte_head: "escape_byte c \<noteq> []" "hd (escape_byte c) \<noteq> CHR 0x22"
  by (simp_all add: escape_byte_def)

lemma p_str_char:
  assumes "p_char s = Some (d, u)" "hd s \<noteq> CHR 0x22"
  shows "p_str s = map_option (\<lambda>(v, w). (d @ v, w)) (p_str u)"
proof (cases s)
  case (Cons c t)
  then show ?thesis using assms by (subst p_str.simps) simp
qed (use assms in \<open>simp add: p_char_def\<close>)

lemma p_char_rune:
  assumes "0 < utf8_width s" "128 \<le> byte (hd s)"
  shows "p_char (take (utf8_width s) s @ t) = Some (take (utf8_width s) s, t)"
proof -
  let ?d = "take (utf8_width s) s"
  have w: "utf8_width ?d = utf8_width s" "length ?d = utf8_width s"
    using utf8_width_take [of s] utf8_width_le [of s] by simp_all
  have wt: "utf8_width (?d @ t) = utf8_width s" using utf8_width_append [of ?d t] assms w(1) by simp
  obtain n where n: "utf8_width s = Suc n" using assms(1) gr0_implies_Suc by blast
  obtain c v where s: "s = c # v" using n by (cases s) auto
  have d: "?d = c # take n v" "128 \<le> byte c" unfolding n using s assms(2) by simp_all
  then have "c \<noteq> CHR 0x5C" by (auto simp: byte_def)
  moreover have "take (utf8_width s) (?d @ t) = ?d" "drop (utf8_width s) (?d @ t) = t" using w(2) by simp_all
  ultimately show ?thesis
    using d wt assms(1) unfolding p_char_def by (simp del: utf8_width.simps)
qed

lemma ValidString_step:
  assumes "ValidString s" "s \<noteq> []"
  shows "0 < utf8_width s" "ValidString (drop (utf8_width s) s)"
  using assms by (subst (asm) ValidString.simps, auto split: if_splits)+

lemma p_char_separator:
  assumes "line_separator s"
  shows "p_char ([CHR 0x5C, CHR ''u'', CHR ''2'', CHR ''0'', CHR ''2'', hex_lower (byte (s ! 2) mod 16)] @ t)
    = Some (take 3 s, t)" and "utf8_width s = 3"
proof -
  obtain a b c v where s: "s = a # b # c # v" "byte a = 226" "byte b = 128" "byte c = 168 \<or> byte c = 169"
    using assms by (cases s; cases "tl s"; cases "tl (tl s)") (auto simp: line_separator_def)
  show "utf8_width s = 3" using s by (auto simp: cont_byte_def)
  have c: "c = char_of (168 :: nat) \<or> c = char_of (169 :: nat)" using s(4) char_of_byte [of c] by metis
  have ab: "a = char_of (226 :: nat)" "b = char_of (128 :: nat)" using s(2,3) char_of_byte by metis+
  have hex: "is_hex (CHR ''2'')" "is_hex (CHR ''0'')" "unhex (CHR ''2'') = 2" "unhex (CHR ''0'') = 0"
    by (simp_all add: is_hex_def is_digit_def unhex_def byte_def)
  let ?x = "byte c mod 16"
  have "hex4 (CHR ''2'' # CHR ''0'' # CHR ''2'' # hex_lower ?x # t) = Some (8224 + ?x, t)"
    using hex hex_lower_hex [of ?x] by (simp add: hex_value_def)
  moreover have "encode_rune (8224 + ?x) = [a, b, c]" "\<not> is_surrogate (8224 + ?x)"
    using c ab by (auto simp: encode_rune_def is_surrogate_def)
  ultimately have "unicode_escape (CHR ''2'' # CHR ''0'' # CHR ''2'' # hex_lower ?x # t) = Some ([a, b, c], t)"
    by (simp add: unicode_escape_def del: hex4.simps)
  then show "p_char ([CHR 0x5C, CHR ''u'', CHR ''2'', CHR ''0'', CHR ''2'', hex_lower (byte (s ! 2) mod 16)] @ t)
    = Some (take 3 s, t)"
    using s(1) by (simp add: p_char_def)
qed

lemma p_str_json_escape: "ValidString s \<Longrightarrow> p_str (json_escape s @ CHR 0x22 # t) = Some (s, t)"
proof (induction s rule: json_escape.induct)
  case (1 s)
  show ?case
  proof (cases s)
    case Nil
    then show ?thesis by (simp add: json_escape.simps p_str.simps)
  next
    case (Cons c u)
    have rest: "ValidString (drop (utf8_width s) s)" and w: "0 < utf8_width s"
      using ValidString_step [OF 1(5)] Cons by blast+
    consider (ascii) "byte c < 128" | (sep) "128 \<le> byte c" "line_separator s" | (rune) "128 \<le> byte c" "\<not> line_separator s"
      by linarith
    then show ?thesis
    proof cases
      case ascii
      then have "ValidString u" using rest Cons by simp
      with 1(1) Cons ascii have "p_str (json_escape u @ CHR 0x22 # t) = Some (u, t)" by simp
      moreover have "p_str (escape_byte c @ json_escape u @ CHR 0x22 # t)
          = map_option (\<lambda>(v, w). ([c] @ v, w)) (p_str (json_escape u @ CHR 0x22 # t))"
        by (rule p_str_char [OF p_char_escape [OF ascii]]) (simp add: escape_byte_head)
      ultimately show ?thesis using ascii Cons by (simp add: json_escape.simps [of "c # u"])
    next
      case sep
      note piece = p_char_separator [OF sep(2)]
      have ih: "p_str (json_escape (drop 3 s) @ CHR 0x22 # t) = Some (drop 3 s, t)"
        using 1(3) [OF Cons] sep w rest piece(2) by (simp del: utf8_width.simps)
      have "json_escape s = [CHR 0x5C, CHR ''u'', CHR ''2'', CHR ''0'', CHR ''2'', hex_lower (byte (s ! 2) mod 16)]
          @ json_escape (drop 3 s)"
        using Cons sep w by (simp add: json_escape.simps [of "c # u"] del: utf8_width.simps)
      then have "p_str (json_escape s @ CHR 0x22 # t)
          = map_option (\<lambda>(v, w). (take 3 s @ v, w)) (p_str (json_escape (drop 3 s) @ CHR 0x22 # t))"
        using p_str_char [OF piece(1)] by simp
      then show ?thesis using ih by simp
    next
      case rune
      have ih: "p_str (json_escape (drop (utf8_width s) s) @ CHR 0x22 # t) = Some (drop (utf8_width s) s, t)"
        using 1(4) [OF Cons] rune w rest by (simp del: utf8_width.simps)
      have "json_escape s = take (utf8_width s) s @ json_escape (drop (utf8_width s) s)"
        using Cons rune w by (simp add: json_escape.simps [of "c # u"] del: utf8_width.simps)
      moreover have "hd (take (utf8_width s) s @ r) \<noteq> CHR 0x22" for r
        using Cons rune(1) w by (cases "utf8_width s") (auto simp: byte_def)
      ultimately have "p_str (json_escape s @ CHR 0x22 # t) = map_option
          (\<lambda>(v, w). (take (utf8_width s) s @ v, w)) (p_str (json_escape (drop (utf8_width s) s) @ CHR 0x22 # t))"
        using p_str_char [OF p_char_rune [OF w]] Cons rune(1) by simp
      then show ?thesis using ih by simp
    qed
  qed
qed

end
