(* ===== verification/Platform.thy ===== *)
theory Platform
  imports Hostcheck Go_Json
begin

text \<open>
  The data the plugin stores and exchanges (\<^verbatim>\<open>salesforceConfig\<close>, \<^verbatim>\<open>salesforceRole\<close>,
  \<^verbatim>\<open>cachedToken\<close>, \<^verbatim>\<open>tokenResult\<close>, \<^verbatim>\<open>salesforceError\<close>), its errors and responses as values,
  and what it runs on.

  The Vault SDK (storage, field data, per-key locks), the JWT library, the network and the
  clock are not part of the plugin. They are the functions of a \<open>platform\<close>, an argument of
  every operation that uses them; the type \<open>'w\<close> is the state of that outside world, \<open>'b\<close>
  the bytes of a storage entry and \<open>'k\<close> the parsed RSA keys. What the plugin relies on is
  stated once, as the assumptions of the locale \<open>barrier\<close>.
\<close>

section \<open>Stored data\<close>

record salesforceConfig =
  LoginURL :: string
  TokenURL :: string
  ClientID :: string
  ClientSecret :: string
  PrivateKey :: string
  CACert :: string
  TLSSkipVerify :: bool
  AllowNonSalesforceHost :: bool

record salesforceRole =
  Config :: string
  GrantType :: string
  Username :: string
  Scopes :: "string list"
  TokenTTL :: Duration
  TTL :: Duration
  MaxTTL :: Duration
  RenewSkew :: Duration
  JWTExpiry :: Duration
  Audience :: string
  UseIntrospection :: bool
  RevokeTokens :: bool

record cachedToken =
  ctAccessToken :: string
  ctInstanceURL :: string
  ctTokenType :: string
  ctScope :: string
  IssuedAt :: Time
  ExpiresAt :: Time

record tokenResult =
  AccessToken :: string
  InstanceURL :: string
  TokenType :: string
  Scope :: string
  ExpiresIn :: int

record salesforceError =
  StatusCode :: int
  Code :: string
  Description :: string

section \<open>Errors\<close>

text \<open>
  Go errors. The constructors with a \<open>gerror\<close> argument are the wrappers made with
  \<^verbatim>\<open>fmt.Errorf("...: %w", err)\<close>.
\<close>

datatype gerror =
    StorageError string
  | CodecError string
  | ContextError string
  | TransportError string
  | UrlError url_error
  | LibraryError string
  | InvalidCACert
  | TokenRequestFailed gerror
  | ReadingTokenResponse gerror
  | DecodingTokenResponse
  | NoAccessToken
  | OAuthError salesforceError
  | UnsupportedGrantType string
  | RevokeRequestFailed gerror
  | RevokeStatus int
  | NoPrivateKeyConfigured
  | ParsingRSAPrivateKey gerror
  | SigningAssertion gerror

text \<open>\<^verbatim>\<open>errors.As(err, &sfErr)\<close> looks through the wrappers.\<close>

fun as_salesforceError :: "gerror \<Rightarrow> salesforceError option" where
  "as_salesforceError (OAuthError e) = Some e"
| "as_salesforceError (TokenRequestFailed e) = as_salesforceError e"
| "as_salesforceError (ReadingTokenResponse e) = as_salesforceError e"
| "as_salesforceError (RevokeRequestFailed e) = as_salesforceError e"
| "as_salesforceError (ParsingRSAPrivateKey e) = as_salesforceError e"
| "as_salesforceError (SigningAssertion e) = as_salesforceError e"
| "as_salesforceError _ = None"

text \<open>User mistakes, which the handlers return as \<^verbatim>\<open>logical.ErrorResponse\<close>.\<close>

datatype user_error =
    MissingConfigurationName
  | LoginURLRequired
  | ClientIDRequired
  | SecretResupplyRequired
  | TokenHostRejected host_error
  | MissingRoleName
  | UsernameImmutable
  | ConfigImmutable
  | ConfigRequired
  | InvalidGrantType
  | TTLExceedsMaxTTL Duration Duration
  | JWTExpiryTooLong Duration
  | RenewSkewNegative Duration
  | RenewSkewTooLong Duration Duration
  | ErrorLoadingConfig string gerror
  | ConfigDoesNotExist string
  | UsernameRequired
  | ConfigHasNoPrivateKey string
  | ConfigHasNoClientSecret string
  | RoleDoesNotExist string
  | ConfigForRoleDoesNotExist string string

section \<open>Responses and log lines\<close>

datatype rvalue = RString string | RBool bool | RInt int | RStrings "string list"

record secret =
  secretType :: string
  InternalData :: "string \<rightharpoonup> rvalue"
  secretTTL :: Duration
  secretMaxTTL :: Duration

datatype response =
    ErrorResponse user_error
  | DataResponse "string \<rightharpoonup> rvalue"
  | ListResponse "string list"
  | SecretResponse "string \<rightharpoonup> rvalue" secret
  | IntrospectionWarning

datatype log_event =
    HostChanged string string string
  | TLSSkipVerifyEnabled string
  | NonSalesforceHostAllowed string
  | MintFailedServingCached string gerror Time
  | MintedToken string string Time
  | RevokeFailed string gerror
  | RevokedAtSalesforce string
  | RotatedToken string Time
  | LeaseRevoked string

section \<open>The request's field data\<close>

text \<open>
  \<^verbatim>\<open>framework.FieldData\<close> gives typed access to the fields of a request: \<^verbatim>\<open>GetOk\<close> the value
  when the request sets the field, \<^verbatim>\<open>Get\<close> that value or the default of the field's schema.
  The schema fixes each field's type, so the type assertions of the handlers succeed.
\<close>

record field_data =
  GetOkString :: "string \<Rightarrow> string option"
  GetOkBool :: "string \<Rightarrow> bool option"
  GetOkInt :: "string \<Rightarrow> int option"
  GetOkStrings :: "string \<Rightarrow> string list option"
  GetString :: "string \<Rightarrow> string"
  GetInt :: "string \<Rightarrow> int"

datatype field_type = TypeString | TypeBool | TypeCommaStringSlice | TypeDurationSecond

record field_schema =
  field_type_of :: field_type
  field_default :: "rvalue option"

text \<open>What the SDK promises about \<^verbatim>\<open>Get\<close>, for the fields of a schema.\<close>

definition respects_schema :: "(string \<times> field_schema) list \<Rightarrow> field_data \<Rightarrow> bool" where
  "respects_schema schema data =
     list_all (\<lambda>(k, f). case field_type_of f of
         TypeString \<Rightarrow> GetString data k = (case GetOkString data k of
             Some v \<Rightarrow> v
           | None \<Rightarrow> (case field_default f of Some (RString v) \<Rightarrow> v | _ \<Rightarrow> []))
       | TypeDurationSecond \<Rightarrow> GetInt data k = (case GetOkInt data k of
             Some v \<Rightarrow> v
           | None \<Rightarrow> (case field_default f of Some (RInt v) \<Rightarrow> v | _ \<Rightarrow> 0))
       | _ \<Rightarrow> True) schema"

section \<open>HTTP\<close>

record http_client =
  InsecureSkipVerify :: bool
  MinVersionTLS12 :: bool
  RootCAs :: "string option"
  ClientTimeout :: Duration

record http_request =
  Method :: string
  RequestURL :: string
  Header :: "(string \<times> string) list"
  Body :: string

record http_response =
  Status :: int
  ResponseBody :: "gerror + string"

section \<open>JWT claims\<close>

record jwt_claims =
  iss :: string
  sub :: string
  aud :: string
  exp_claim :: int

section \<open>The platform\<close>

record ('w, 'b, 'k) platform =
  Storage_Get :: "string \<Rightarrow> 'w \<Rightarrow> (gerror + 'b option) \<times> 'w"
  Storage_Put :: "string \<Rightarrow> 'b \<Rightarrow> 'w \<Rightarrow> (gerror + unit) \<times> 'w"
  Storage_Delete :: "string \<Rightarrow> 'w \<Rightarrow> (gerror + unit) \<times> 'w"
  Storage_List :: "string \<Rightarrow> 'w \<Rightarrow> (gerror + string list) \<times> 'w"
  EncodeConfig :: "salesforceConfig \<Rightarrow> gerror + 'b"
  DecodeConfig :: "'b \<Rightarrow> gerror + salesforceConfig"
  EncodeRole :: "salesforceRole \<Rightarrow> gerror + 'b"
  DecodeRole :: "'b \<Rightarrow> gerror + salesforceRole"
  EncodeToken :: "cachedToken \<Rightarrow> gerror + 'b"
  DecodeToken :: "'b \<Rightarrow> gerror + cachedToken"
  Time_Now :: "'w \<Rightarrow> Time \<times> 'w"
  Ctx_Err :: "'w \<Rightarrow> gerror option \<times> 'w"
  Wait_After :: "Duration \<Rightarrow> 'w \<Rightarrow> gerror option \<times> 'w"
  Rand_Int63n :: "int \<Rightarrow> 'w \<Rightarrow> int \<times> 'w"
  Http_Do :: "http_client \<Rightarrow> http_request \<Rightarrow> 'w \<Rightarrow> (gerror + http_response) \<times> 'w"
  AppendCertsFromPEM :: "string \<Rightarrow> bool"
  ParseRSAPrivateKeyFromPEM :: "string \<Rightarrow> gerror + 'k"
  SignedString :: "'k \<Rightarrow> jwt_claims \<Rightarrow> gerror + string"
  LockForKey :: "string \<Rightarrow> nat"
  TryLock :: "nat \<Rightarrow> 'w \<Rightarrow> bool \<times> 'w"
  Lock :: "nat \<Rightarrow> 'w \<Rightarrow> 'w"
  Unlock :: "nat \<Rightarrow> 'w \<Rightarrow> 'w"
  Unicode_ToLower :: "string \<Rightarrow> string"
  GenericName :: "string \<Rightarrow> bool"

text \<open>
  The state of the running plugin: the outside world, the process-wide cache of parsed RSA
  keys and the log lines written, newest first.
\<close>

record ('w, 'k) engine =
  ext :: 'w
  rsaKeyCache :: "string \<rightharpoonup> 'k"
  logs :: "log_event list"

type_synonym ('w, 'k, 'a) op = "(('w, 'k) engine, gerror, 'a) action"
type_synonym ('w, 'k) handler = "('w, 'k, response option) op"

definition st_Get :: "('w, 'b, 'k) platform \<Rightarrow> string \<Rightarrow> ('w, 'k, 'b option) op" where
  "st_Get P k s = (case Storage_Get P k (ext s) of (r, w) \<Rightarrow> (r, s\<lparr>ext := w\<rparr>))"

definition st_Put :: "('w, 'b, 'k) platform \<Rightarrow> string \<Rightarrow> 'b \<Rightarrow> ('w, 'k, unit) op" where
  "st_Put P k b s = (case Storage_Put P k b (ext s) of (r, w) \<Rightarrow> (r, s\<lparr>ext := w\<rparr>))"

definition st_Delete :: "('w, 'b, 'k) platform \<Rightarrow> string \<Rightarrow> ('w, 'k, unit) op" where
  "st_Delete P k s = (case Storage_Delete P k (ext s) of (r, w) \<Rightarrow> (r, s\<lparr>ext := w\<rparr>))"

definition st_List :: "('w, 'b, 'k) platform \<Rightarrow> string \<Rightarrow> ('w, 'k, string list) op" where
  "st_List P p s = (case Storage_List P p (ext s) of (r, w) \<Rightarrow> (r, s\<lparr>ext := w\<rparr>))"

definition now :: "('w, 'b, 'k) platform \<Rightarrow> ('w, 'k) engine \<Rightarrow> Time \<times> ('w, 'k) engine" where
  "now P s = (case Time_Now P (ext s) of (t, w) \<Rightarrow> (t, s\<lparr>ext := w\<rparr>))"

definition log :: "log_event \<Rightarrow> ('w, 'k) engine \<Rightarrow> ('w, 'k) engine" where
  "log e s = s\<lparr>logs := e # logs s\<rparr>"

lemma log_frame [simp]: "ext (log e s) = ext s" "rsaKeyCache (log e s) = rsaKeyCache s"
  by (simp_all add: log_def)

section \<open>What JSON preserves\<close>

text \<open>
  The codec keeps text that is valid UTF-8 (anything else is replaced by U+FFFD), and
  everything it decodes is valid UTF-8. A duration is a 64-bit integer.
\<close>

definition config_text :: "salesforceConfig \<Rightarrow> bool" where
  "config_text c = list_all ValidString
     [LoginURL c, TokenURL c, ClientID c, ClientSecret c, PrivateKey c, CACert c]"

definition role_text :: "salesforceRole \<Rightarrow> bool" where
  "role_text r \<longleftrightarrow> list_all ValidString ([Config r, GrantType r, Username r, Audience r] @ Scopes r)
     \<and> list_all in_int64 [TokenTTL r, TTL r, MaxTTL r, RenewSkew r, JWTExpiry r]"

definition token_text :: "cachedToken \<Rightarrow> bool" where
  "token_text t = list_all ValidString [ctAccessToken t, ctInstanceURL t, ctTokenType t, ctScope t]"

text \<open>The request's texts are valid UTF-8, as texts that arrive in JSON are.\<close>

definition data_text :: "field_data \<Rightarrow> bool" where
  "data_text d \<longleftrightarrow>
     (\<forall>k v. GetOkString d k = Some v \<longrightarrow> ValidString v \<and> GetString d k = v)
     \<and> (\<forall>k vs. GetOkStrings d k = Some vs \<longrightarrow> list_all ValidString vs)"

section \<open>The contract of the platform\<close>

text \<open>
  \<open>view w\<close> is the content of the storage in world \<open>w\<close>. A read or a listing returns the
  content and changes nothing; a write or a deletion that succeeds has its effect, one that
  fails has it or not; nothing but storage operations touches the content.
\<close>

locale barrier =
  fixes P :: "('w, 'b, 'k) platform" and view :: "'w \<Rightarrow> (string \<rightharpoonup> 'b)"
  assumes get_frame: "Storage_Get P k w = (r, w') \<Longrightarrow> view w' = view w"
    and get_value: "Storage_Get P k w = (Inr e, w') \<Longrightarrow> e = view w k"
    and put_ok: "Storage_Put P k b w = (Inr u, w') \<Longrightarrow> view w' = (view w)(k \<mapsto> b)"
    and put_err: "Storage_Put P k b w = (Inl er, w') \<Longrightarrow> view w' \<in> {view w, (view w)(k \<mapsto> b)}"
    and delete_ok: "Storage_Delete P k w = (Inr u, w') \<Longrightarrow> view w' = (view w)(k := None)"
    and delete_err: "Storage_Delete P k w = (Inl er, w') \<Longrightarrow> view w' \<in> {view w, (view w)(k := None)}"
    and list_frame: "Storage_List P p w = (rl, w') \<Longrightarrow> view w' = view w"
    and list_names: "Storage_List P p w = (Inr ns, w') \<Longrightarrow> n \<noteq> [] \<Longrightarrow> CHR ''/'' \<notin> set n \<Longrightarrow>
      n \<in> set ns \<longleftrightarrow> p @ n \<in> dom (view w)"
    and config_roundtrip: "config_text c \<Longrightarrow> EncodeConfig P c = Inr b \<Longrightarrow> DecodeConfig P b = Inr c"
    and config_decoded: "DecodeConfig P b = Inr c \<Longrightarrow> config_text c"
    and role_roundtrip: "role_text ro \<Longrightarrow> EncodeRole P ro = Inr b \<Longrightarrow> DecodeRole P b = Inr ro"
    and role_decoded: "DecodeRole P b = Inr ro \<Longrightarrow> role_text ro"
    and token_roundtrip: "token_text t \<Longrightarrow> EncodeToken P t = Inr b \<Longrightarrow> DecodeToken P b = Inr t"
    and token_decoded: "DecodeToken P b = Inr t \<Longrightarrow> token_text t"
    and now_frame: "Time_Now P w = (tm, w') \<Longrightarrow> view w' = view w"
    and ctx_frame: "Ctx_Err P w = (oe, w') \<Longrightarrow> view w' = view w"
    and wait_frame: "Wait_After P d w = (oe, w') \<Longrightarrow> view w' = view w"
    and rand_frame: "Rand_Int63n P i w = (j, w') \<Longrightarrow> view w' = view w"
    and http_frame: "Http_Do P cl rq w = (hr, w') \<Longrightarrow> view w' = view w"
    and trylock_frame: "TryLock P ix w = (got, w') \<Longrightarrow> view w' = view w"
    and unlock_frame: "view (Unlock P ix w) = view w"
    and generic_name: "GenericName P n \<Longrightarrow> n \<noteq> [] \<and> CHR ''/'' \<notin> set n \<and> list_all is_ascii n"
begin

lemma st_Get_spec:
  assumes "st_Get P k s = (r, s')"
  shows "view (ext s') = view (ext s)" "rsaKeyCache s' = rsaKeyCache s" "logs s' = logs s"
    and "r = Inr e \<Longrightarrow> e = view (ext s) k"
  using assms get_frame get_value by (fastforce simp: st_Get_def split: prod.splits)+

lemma now_spec:
  assumes "now P s = (t, s')"
  shows "view (ext s') = view (ext s)" "rsaKeyCache s' = rsaKeyCache s" "logs s' = logs s"
  using assms now_frame by (fastforce simp: now_def split: prod.splits)+

lemma st_List_spec:
  assumes "st_List P p s = (r, s')"
  shows "view (ext s') = view (ext s)" "rsaKeyCache s' = rsaKeyCache s" "logs s' = logs s"
    and "r = Inr ns \<Longrightarrow> n \<noteq> [] \<Longrightarrow> CHR ''/'' \<notin> set n \<Longrightarrow> n \<in> set ns \<longleftrightarrow> p @ n \<in> dom (view (ext s))"
  using assms list_frame list_names by (fastforce simp: st_List_def split: prod.splits)+

lemma st_Put_spec:
  assumes "st_Put P k b s = (r, s')"
  shows "view (ext s') \<in> {view (ext s), (view (ext s))(k \<mapsto> b)}"
    "rsaKeyCache s' = rsaKeyCache s" "logs s' = logs s"
    and "isOk r \<Longrightarrow> view (ext s') = (view (ext s))(k \<mapsto> b)"
  using assms put_ok put_err
  by (cases r; fastforce simp: st_Put_def split: prod.splits)+

lemma st_Delete_spec:
  assumes "st_Delete P k s = (r, s')"
  shows "view (ext s') \<in> {view (ext s), (view (ext s))(k := None)}"
    "rsaKeyCache s' = rsaKeyCache s" "logs s' = logs s"
    and "isOk r \<Longrightarrow> view (ext s') = (view (ext s))(k := None)"
  using assms delete_ok delete_err
  by (cases r; fastforce simp: st_Delete_def split: prod.splits)+

end

end
