(* ===== verification/Store.thy ===== *)
theory Store
  imports Platform
begin

text \<open>
  The typed storage records of the plugin: \<^verbatim>\<open>getConfig\<close> (\<^verbatim>\<open>path_config.go\<close>), \<^verbatim>\<open>getRole\<close>
  (\<^verbatim>\<open>path_roles.go\<close>) and the per-role token cache of \<^verbatim>\<open>cache.go\<close>. \<open>configAt\<close>, \<open>roleAt\<close> and
  \<open>tokenAt\<close> are the abstract contents those operations are specified against; the locale
  \<open>token_cache\<close> is the interface of the cache that the token-issuing code relies on.
\<close>

definition configStoragePrefix :: string where
  "configStoragePrefix = ''config/''"

definition rolesStoragePrefix :: string where
  "rolesStoragePrefix = ''role/''"

definition cacheStoragePrefix :: string where
  "cacheStoragePrefix = ''cache/''"

lemmas prefix_defs = configStoragePrefix_def rolesStoragePrefix_def cacheStoragePrefix_def

definition getConfig :: "('w, 'b, 'k) platform \<Rightarrow> string \<Rightarrow> ('w, 'k, salesforceConfig option) op" where
  "getConfig P name s = (case st_Get P (configStoragePrefix @ name) s of
      (Inl err, s) \<Rightarrow> (Inl err, s)
    | (Inr None, s) \<Rightarrow> (Inr None, s)
    | (Inr (Some entry), s) \<Rightarrow>
        (case DecodeConfig P entry of Inl err \<Rightarrow> (Inl err, s) | Inr cfg \<Rightarrow> (Inr (Some cfg), s)))"

definition getRole :: "('w, 'b, 'k) platform \<Rightarrow> string \<Rightarrow> ('w, 'k, salesforceRole option) op" where
  "getRole P name s = (case st_Get P (rolesStoragePrefix @ name) s of
      (Inl err, s) \<Rightarrow> (Inl err, s)
    | (Inr None, s) \<Rightarrow> (Inr None, s)
    | (Inr (Some entry), s) \<Rightarrow>
        (case DecodeRole P entry of Inl err \<Rightarrow> (Inl err, s) | Inr role \<Rightarrow> (Inr (Some role), s)))"

definition fresh :: "cachedToken \<Rightarrow> Time \<Rightarrow> Duration \<Rightarrow> bool" where
  "fresh c t skew = Time_Before t (Time_Add (ExpiresAt c) (wrap64 (- skew)))"

definition getCachedToken :: "('w, 'b, 'k) platform \<Rightarrow> string \<Rightarrow> ('w, 'k, cachedToken option) op" where
  "getCachedToken P role s = (case st_Get P (cacheStoragePrefix @ role) s of
      (Inl err, s) \<Rightarrow> (Inl err, s)
    | (Inr None, s) \<Rightarrow> (Inr None, s)
    | (Inr (Some entry), s) \<Rightarrow>
        (case DecodeToken P entry of Inl err \<Rightarrow> (Inl err, s) | Inr ct \<Rightarrow> (Inr (Some ct), s)))"

definition putCachedToken :: "('w, 'b, 'k) platform \<Rightarrow> string \<Rightarrow> cachedToken \<Rightarrow> ('w, 'k, unit) op" where
  "putCachedToken P role ct s = (case EncodeToken P ct of
      Inl err \<Rightarrow> (Inl err, s)
    | Inr entry \<Rightarrow> st_Put P (cacheStoragePrefix @ role) entry s)"

definition deleteCachedToken :: "('w, 'b, 'k) platform \<Rightarrow> string \<Rightarrow> ('w, 'k, unit) op" where
  "deleteCachedToken P role s = st_Delete P (cacheStoragePrefix @ role) s"

text \<open>The body and the loop of \<^verbatim>\<open>deleteCachedTokensForConfig\<close> over the listed role names.\<close>

definition delete_token_if_bound :: "('w, 'b, 'k) platform \<Rightarrow> string \<Rightarrow> string \<Rightarrow> ('w, 'k, unit) op" where
  "delete_token_if_bound P configName name s = (case getRole P name s of
      (Inl err, s) \<Rightarrow> (Inl err, s)
    | (Inr (Some role), s) \<Rightarrow>
        if Config role = configName then deleteCachedToken P name s else (Inr (), s)
    | (Inr None, s) \<Rightarrow> (Inr (), s))"

fun delete_tokens_of :: "('w, 'b, 'k) platform \<Rightarrow> string \<Rightarrow> string list \<Rightarrow> ('w, 'k, unit) op" where
  "delete_tokens_of P configName [] s = (Inr (), s)"
| "delete_tokens_of P configName (name # names) s = (case delete_token_if_bound P configName name s of
      (Inl err, s) \<Rightarrow> (Inl err, s)
    | (Inr _, s) \<Rightarrow> delete_tokens_of P configName names s)"

definition deleteCachedTokensForConfig :: "('w, 'b, 'k) platform \<Rightarrow> string \<Rightarrow> ('w, 'k, unit) op" where
  "deleteCachedTokensForConfig P configName s = (case st_List P rolesStoragePrefix s of
      (Inl err, s) \<Rightarrow> (Inl err, s)
    | (Inr names, s) \<Rightarrow> delete_tokens_of P configName names s)"

section \<open>Abstract contents\<close>

type_synonym ('w, 'b) view = "'w \<Rightarrow> (string \<rightharpoonup> 'b)"

definition decoded :: "gerror + 'a \<Rightarrow> 'a option" where
  "decoded r = (case r of Inl _ \<Rightarrow> None | Inr x \<Rightarrow> Some x)"

definition configAt :: "('w, 'b, 'k) platform \<Rightarrow> ('w, 'b) view \<Rightarrow> ('w, 'k) engine \<Rightarrow> string \<rightharpoonup> salesforceConfig" where
  "configAt P view s name = Option.bind (view (ext s) (configStoragePrefix @ name)) (decoded \<circ> DecodeConfig P)"

definition roleAt :: "('w, 'b, 'k) platform \<Rightarrow> ('w, 'b) view \<Rightarrow> ('w, 'k) engine \<Rightarrow> string \<rightharpoonup> salesforceRole" where
  "roleAt P view s name = Option.bind (view (ext s) (rolesStoragePrefix @ name)) (decoded \<circ> DecodeRole P)"

definition tokenAt :: "('w, 'b, 'k) platform \<Rightarrow> ('w, 'b) view \<Rightarrow> ('w, 'k) engine \<Rightarrow> string \<rightharpoonup> cachedToken" where
  "tokenAt P view s role = Option.bind (view (ext s) (cacheStoragePrefix @ role)) (decoded \<circ> DecodeToken P)"

lemma decoded_simps [simp]: "decoded (Inr x) = Some x" "decoded (Inl e) = None"
  by (simp_all add: decoded_def)

lemma decoded_Some_iff [simp]: "decoded r = Some x \<longleftrightarrow> r = Inr x"
  by (cases r) simp_all

text \<open>Two states with the same storage content.\<close>

definition same_store :: "('w, 'b) view \<Rightarrow> ('w, 'k) engine \<Rightarrow> ('w, 'k) engine \<Rightarrow> bool" where
  "same_store view s s' \<longleftrightarrow> view (ext s') = view (ext s)"

lemma same_store_refl [simp]: "same_store view s s"
  by (simp add: same_store_def)

lemma same_store_trans: "same_store view s t \<Longrightarrow> same_store view t u \<Longrightarrow> same_store view s u"
  by (simp add: same_store_def)

lemma same_store_contents:
  assumes "same_store view s s'"
  shows "configAt P view s' = configAt P view s" "roleAt P view s' = roleAt P view s"
    "tokenAt P view s' = tokenAt P view s"
  using assms by (simp_all add: same_store_def configAt_def roleAt_def tokenAt_def fun_eq_iff)

lemma same_store_log [simp]:
  "same_store view s (log e s') = same_store view s s'" "same_store view (log e s) s' = same_store view s s'"
  by (simp_all add: same_store_def log_def)

text \<open>An update of one key leaves the records under the other prefixes alone.\<close>

lemma contents_other_keys:
  assumes "view (ext s') = (view (ext s))(k := v)"
  shows "k = configStoragePrefix @ n \<Longrightarrow> roleAt P view s' = roleAt P view s"
    "k = configStoragePrefix @ n \<Longrightarrow> tokenAt P view s' = tokenAt P view s"
    "k = configStoragePrefix @ n \<Longrightarrow> m \<noteq> n \<Longrightarrow> configAt P view s' m = configAt P view s m"
    "k = rolesStoragePrefix @ n \<Longrightarrow> configAt P view s' = configAt P view s"
    "k = rolesStoragePrefix @ n \<Longrightarrow> tokenAt P view s' = tokenAt P view s"
    "k = rolesStoragePrefix @ n \<Longrightarrow> m \<noteq> n \<Longrightarrow> roleAt P view s' m = roleAt P view s m"
    "k = cacheStoragePrefix @ n \<Longrightarrow> configAt P view s' = configAt P view s"
    "k = cacheStoragePrefix @ n \<Longrightarrow> roleAt P view s' = roleAt P view s"
    "k = cacheStoragePrefix @ n \<Longrightarrow> m \<noteq> n \<Longrightarrow> tokenAt P view s' m = tokenAt P view s m"
  using assms by (simp_all add: configAt_def roleAt_def tokenAt_def fun_eq_iff prefix_defs)

text \<open>
  From \<open>s\<close> to \<open>s'\<close> nothing changed but cached tokens of roles in \<open>D\<close>, some of which are gone.
\<close>

definition drops_tokens :: "('w, 'b) view \<Rightarrow> string set \<Rightarrow> ('w, 'k) engine \<Rightarrow> ('w, 'k) engine \<Rightarrow> bool" where
  "drops_tokens view D s s' \<longleftrightarrow>
     (\<forall>k. view (ext s') k = view (ext s) k
        \<or> view (ext s') k = None \<and> (\<exists>n \<in> D. k = cacheStoragePrefix @ n))"

lemma drops_tokens_refl: "same_store view s s' \<Longrightarrow> drops_tokens view D s s'"
  by (simp add: drops_tokens_def same_store_def)

lemma drops_tokens_trans:
  assumes "drops_tokens view D s t" "drops_tokens view D t u"
  shows "drops_tokens view D s u"
  using assms unfolding drops_tokens_def by metis

lemma drops_tokens_mono: "drops_tokens view D s s' \<Longrightarrow> D \<subseteq> E \<Longrightarrow> drops_tokens view E s s'"
  unfolding drops_tokens_def by blast

lemma drops_tokens_contents:
  assumes "drops_tokens view D s s'"
  shows "configAt P view s' = configAt P view s" "roleAt P view s' = roleAt P view s"
    "tokenAt P view s' n = tokenAt P view s n \<or> tokenAt P view s' n = None \<and> n \<in> D"
proof -
  have other: "view (ext s') k = view (ext s) k" if "\<forall>n \<in> D. k \<noteq> cacheStoragePrefix @ n" for k
    using assms that unfolding drops_tokens_def by blast
  show "configAt P view s' = configAt P view s" "roleAt P view s' = roleAt P view s"
    by (simp_all add: configAt_def roleAt_def fun_eq_iff other prefix_defs)
  show "tokenAt P view s' n = tokenAt P view s n \<or> tokenAt P view s' n = None \<and> n \<in> D"
    using assms unfolding drops_tokens_def tokenAt_def
    by (metis append_eq_append_conv bind.bind_lzero)
qed

lemma drops_tokens_stays_gone:
  "drops_tokens view D s s' \<Longrightarrow> tokenAt P view s n = None \<Longrightarrow> tokenAt P view s' n = None"
  using drops_tokens_contents(3) by metis

text \<open>The roles bound to a config.\<close>

definition bound_roles ::
  "('w, 'b, 'k) platform \<Rightarrow> ('w, 'b) view \<Rightarrow> ('w, 'k) engine \<Rightarrow> string \<Rightarrow> string set" where
  "bound_roles P view s c = {n. \<exists>ro. roleAt P view s n = Some ro \<and> Config ro = c}"

text \<open>A fresh token is not expired, for the renew skews a stored role can have.\<close>

lemma fresh_unexpired:
  assumes "fresh c t skew" "0 \<le> skew" "in_int64 skew"
  shows "t < ExpiresAt c - skew"
proof -
  have "wrap64 (- skew) = - skew" using assms(2,3) by (intro wrap64_id) (auto simp: in_int64_def)
  then show ?thesis using assms(1) by (simp add: fresh_def go_defs)
qed

section \<open>The interface of the token cache\<close>

text \<open>
  What the token-issuing code uses: a lookup returns the cached token and changes no
  entry, a store or a deletion that succeeds is seen by the next lookup of that role, and
  no operation touches the entry of another role.
\<close>

locale token_cache =
  fixes get :: "string \<Rightarrow> 's \<Rightarrow> ('e + 't option) \<times> 's"
    and put :: "string \<Rightarrow> 't \<Rightarrow> 's \<Rightarrow> ('e + unit) \<times> 's"
    and del :: "string \<Rightarrow> 's \<Rightarrow> ('e + unit) \<times> 's"
    and content :: "'s \<Rightarrow> string \<rightharpoonup> 't"
    and storable :: "'t \<Rightarrow> bool"
  assumes get_content: "get r s = (res, s') \<Longrightarrow> content s' = content s"
    and get_result: "get r s = (Inr o1, s') \<Longrightarrow> o1 = content s r"
    and put_result: "put r t s = (Inr u, s') \<Longrightarrow> storable t \<Longrightarrow> content s' = (content s)(r \<mapsto> t)"
    and put_other: "put r t s = (res', s') \<Longrightarrow> q \<noteq> r \<Longrightarrow> content s' q = content s q"
    and del_result: "del r s = (Inr u, s') \<Longrightarrow> content s' = (content s)(r := None)"
    and del_failed: "del r s = (Inl e, s') \<Longrightarrow> content s' r \<in> {content s r, None}"
    and del_other: "del r s = (res', s') \<Longrightarrow> q \<noteq> r \<Longrightarrow> content s' q = content s q"
begin

lemma get_after_put:
  assumes "put r t s = (Inr u, s1)" "storable t" "get r s1 = (Inr o1, s2)"
  shows "o1 = Some t"
  using put_result [OF assms(1,2)] get_result [OF assms(3)] by simp

lemma get_after_del:
  assumes "del r s = (Inr u, s1)" "get r s1 = (Inr o1, s2)"
  shows "o1 = None"
  using del_result [OF assms(1)] get_result [OF assms(2)] by simp

lemma del_cases: "del r s = (res, s') \<Longrightarrow> content s' r \<in> {content s r, None}"
  using del_result del_failed by (cases res) auto

end

context barrier
begin

lemma getConfig_spec:
  assumes "getConfig P n s = (r, s')"
  shows "same_store view s s'" "rsaKeyCache s' = rsaKeyCache s" "logs s' = logs s"
    and "r = Inr c \<Longrightarrow> c = configAt P view s n"
  using assms st_Get_spec unfolding getConfig_def same_store_def configAt_def
  by (fastforce split: prod.splits sum.splits option.splits)+

lemma getRole_spec:
  assumes "getRole P n s = (r, s')"
  shows "same_store view s s'" "rsaKeyCache s' = rsaKeyCache s" "logs s' = logs s"
    and "r = Inr c \<Longrightarrow> c = roleAt P view s n"
  using assms st_Get_spec unfolding getRole_def same_store_def roleAt_def
  by (fastforce split: prod.splits sum.splits option.splits)+

lemma getCachedToken_spec:
  assumes "getCachedToken P n s = (r, s')"
  shows "same_store view s s'" "rsaKeyCache s' = rsaKeyCache s" "logs s' = logs s"
    and "r = Inr c \<Longrightarrow> c = tokenAt P view s n"
  using assms st_Get_spec unfolding getCachedToken_def same_store_def tokenAt_def
  by (fastforce split: prod.splits sum.splits option.splits)+

end

context barrier
begin

lemma deleteCachedToken_spec:
  assumes "deleteCachedToken P n s = (r, s')"
  shows "drops_tokens view {n} s s'" "rsaKeyCache s' = rsaKeyCache s" "logs s' = logs s"
    and "isOk r \<Longrightarrow> tokenAt P view s' = (tokenAt P view s)(n := None)"
proof -
  note del = st_Delete_spec [OF assms [unfolded deleteCachedToken_def]]
  show "drops_tokens view {n} s s'"
    using del(1) by (auto simp: drops_tokens_def split: if_splits)
  show "rsaKeyCache s' = rsaKeyCache s" "logs s' = logs s"
    using del(2,3) .
  show "tokenAt P view s' = (tokenAt P view s)(n := None)" if "isOk r"
    using del(4) [OF that] by (auto simp: tokenAt_def fun_eq_iff)
qed

lemma putCachedToken_spec:
  assumes "putCachedToken P n t s = (r, s')"
  shows "configAt P view s' = configAt P view s" "roleAt P view s' = roleAt P view s"
    "m \<noteq> n \<Longrightarrow> tokenAt P view s' m = tokenAt P view s m"
    "rsaKeyCache s' = rsaKeyCache s" "logs s' = logs s"
    and "isOk r \<Longrightarrow> token_text t \<Longrightarrow> tokenAt P view s' = (tokenAt P view s)(n \<mapsto> t)"
proof -
  consider (enc) e where "EncodeToken P t = Inl e" "s' = s" "r = Inl e"
    | (put) b where "EncodeToken P t = Inr b" "st_Put P (cacheStoragePrefix @ n) b s = (r, s')"
    using assms by (auto simp: putCachedToken_def split: sum.splits)
  then have "configAt P view s' = configAt P view s \<and> roleAt P view s' = roleAt P view s
    \<and> (m \<noteq> n \<longrightarrow> tokenAt P view s' m = tokenAt P view s m)
    \<and> rsaKeyCache s' = rsaKeyCache s \<and> logs s' = logs s
    \<and> (isOk r \<longrightarrow> token_text t \<longrightarrow> tokenAt P view s' = (tokenAt P view s)(n \<mapsto> t))" for m
  proof cases
    case enc
    then show ?thesis by simp
  next
    case put
    note spec = st_Put_spec [OF put(2)]
    have "isOk r \<Longrightarrow> token_text t \<Longrightarrow> tokenAt P view s' = (tokenAt P view s)(n \<mapsto> t)"
      using spec(4) token_roundtrip [OF _ put(1)] by (auto simp: tokenAt_def fun_eq_iff)
    then show ?thesis
      using spec(1-3) by (auto simp: configAt_def roleAt_def tokenAt_def fun_eq_iff prefix_defs)
  qed
  then show "configAt P view s' = configAt P view s" "roleAt P view s' = roleAt P view s"
    "m \<noteq> n \<Longrightarrow> tokenAt P view s' m = tokenAt P view s m"
    "rsaKeyCache s' = rsaKeyCache s" "logs s' = logs s"
    "isOk r \<Longrightarrow> token_text t \<Longrightarrow> tokenAt P view s' = (tokenAt P view s)(n \<mapsto> t)"
    by blast+
qed

sublocale tc: token_cache "getCachedToken P" "putCachedToken P" "deleteCachedToken P"
  "tokenAt P view" token_text
proof (unfold_locales, goal_cases)
  case (1 r s res s')
  then show ?case using getCachedToken_spec(1) same_store_contents(3) by metis
next
  case (2 r s o1 s')
  then show ?case using getCachedToken_spec(4) by blast
next
  case (3 r t s u s')
  then show ?case using putCachedToken_spec(6) by simp
next
  case (4 r t s res' s' q)
  then show ?case using putCachedToken_spec(3) by blast
next
  case (5 r s u s')
  then show ?case using deleteCachedToken_spec(4) by simp
next
  case (6 r s e s')
  then show ?case using deleteCachedToken_spec(1) drops_tokens_contents(3) by blast
next
  case (7 r s res' s' q)
  then show ?case using deleteCachedToken_spec(1) drops_tokens_contents(3) by blast
qed

lemma delete_token_if_bound_spec:
  assumes "delete_token_if_bound P c n s = (r, s')"
  shows "drops_tokens view (bound_roles P view s c) s s'"
    and "rsaKeyCache s' = rsaKeyCache s \<and> logs s' = logs s"
    and "isOk r \<Longrightarrow> n \<in> bound_roles P view s c \<Longrightarrow> tokenAt P view s' n = None"
proof -
  obtain ro1 s1 where g: "getRole P n s = (ro1, s1)" by fastforce
  note gs = getRole_spec [OF g]
  note keep = drops_tokens_refl [OF gs(1)]
  consider (bound) ro where "ro1 = Inr (Some ro)" "Config ro = c" "deleteCachedToken P n s1 = (r, s')"
    | (other) "s' = s1" "\<not> isOk r \<or> n \<notin> bound_roles P view s c"
    using assms g gs(4)
    by (cases ro1) (fastforce simp: delete_token_if_bound_def bound_roles_def split: option.splits if_splits)+
  then have "drops_tokens view (bound_roles P view s c) s s'
      \<and> (rsaKeyCache s' = rsaKeyCache s \<and> logs s' = logs s)
      \<and> (isOk r \<longrightarrow> n \<in> bound_roles P view s c \<longrightarrow> tokenAt P view s' n = None)"
  proof cases
    case bound
    note ds = deleteCachedToken_spec [OF bound(3)]
    have "n \<in> bound_roles P view s c"
      using gs(4) [OF bound(1), symmetric] bound(2) by (simp add: bound_roles_def)
    then have "drops_tokens view (bound_roles P view s c) s1 s'"
      using drops_tokens_mono [OF ds(1)] by simp
    then show ?thesis
      using keep ds gs(2,3) by (auto intro: drops_tokens_trans)
  next
    case other
    then show ?thesis using keep gs(2,3) by auto
  qed
  then show "drops_tokens view (bound_roles P view s c) s s'"
    "rsaKeyCache s' = rsaKeyCache s \<and> logs s' = logs s"
    "isOk r \<Longrightarrow> n \<in> bound_roles P view s c \<Longrightarrow> tokenAt P view s' n = None"
    by blast+
qed

lemma delete_tokens_of_spec:
  assumes "delete_tokens_of P c names s = (r, s')"
  shows "drops_tokens view (bound_roles P view s c) s s' \<and> rsaKeyCache s' = rsaKeyCache s \<and> logs s' = logs s
    \<and> (isOk r \<longrightarrow> (\<forall>n \<in> set names \<inter> bound_roles P view s c. tokenAt P view s' n = None))"
  using assms
proof (induction names arbitrary: s)
  case Nil
  then show ?case by (auto intro: drops_tokens_refl)
next
  case (Cons name names)
  obtain r1 s1 where d: "delete_token_if_bound P c name s = (r1, s1)" by fastforce
  note ds = delete_token_if_bound_spec [OF d]
  have same_roles: "bound_roles P view s1 c = bound_roles P view s c"
    using drops_tokens_contents(2) [OF ds(1)] by (simp add: bound_roles_def)
  show ?case
  proof (cases r1)
    case (Inl e)
    then have "r = Inl e" "s' = s1" using Cons.prems d by simp_all
    then show ?thesis using ds by simp
  next
    case (Inr u)
    with Cons.prems d have rest: "delete_tokens_of P c names s1 = (r, s')" by simp
    note ih = Cons.IH [OF rest, unfolded same_roles]
    have "tokenAt P view s' name = None" if "name \<in> bound_roles P view s c"
      using ds(3) that Inr drops_tokens_stays_gone [OF conjunct1 [OF ih]] by simp
    then show ?thesis using ih ds by (auto intro: drops_tokens_trans)
  qed
qed

lemma deleteCachedTokensForConfig_spec:
  assumes "deleteCachedTokensForConfig P c s = (r, s')"
  shows "drops_tokens view (bound_roles P view s c) s s'"
    and "rsaKeyCache s' = rsaKeyCache s \<and> logs s' = logs s"
    and "isOk r \<Longrightarrow> n \<in> bound_roles P view s c \<Longrightarrow> n \<noteq> [] \<Longrightarrow> CHR ''/'' \<notin> set n \<Longrightarrow>
      tokenAt P view s' n = None"
proof -
  obtain rl s1 where l: "st_List P rolesStoragePrefix s = (rl, s1)" by fastforce
  note ls = st_List_spec [OF l]
  have same: "same_store view s s1" using ls(1) by (simp add: same_store_def)
  have roles: "bound_roles P view s1 c = bound_roles P view s c"
    using same_store_contents(2) [OF same] by (simp add: bound_roles_def)
  have "drops_tokens view (bound_roles P view s c) s s'
    \<and> (rsaKeyCache s' = rsaKeyCache s \<and> logs s' = logs s)
    \<and> (isOk r \<longrightarrow> n \<in> bound_roles P view s c \<longrightarrow> n \<noteq> [] \<longrightarrow> CHR ''/'' \<notin> set n \<longrightarrow>
      tokenAt P view s' n = None)"
  proof (cases rl)
    case (Inl e)
    with assms l have "r = Inl e" "s' = s1"
      by (simp_all add: deleteCachedTokensForConfig_def)
    then show ?thesis using drops_tokens_refl [OF same] ls by simp
  next
    case (Inr names)
    with assms l have d: "delete_tokens_of P c names s1 = (r, s')"
      by (simp add: deleteCachedTokensForConfig_def)
    note spec = delete_tokens_of_spec [OF d, unfolded roles]
    have "n \<in> set names" if "n \<noteq> []" "CHR ''/'' \<notin> set n" "n \<in> bound_roles P view s c"
    proof -
      have "rolesStoragePrefix @ n \<in> dom (view (ext s))"
        using that(3) by (auto simp: bound_roles_def roleAt_def bind_eq_Some_conv)
      then show ?thesis using ls(4) [OF Inr that(1,2)] by simp
    qed
    then show ?thesis
      using spec ls(2,3) drops_tokens_trans [OF drops_tokens_refl [OF same] conjunct1 [OF spec]] by auto
  qed
  then show "drops_tokens view (bound_roles P view s c) s s'"
    "rsaKeyCache s' = rsaKeyCache s \<and> logs s' = logs s"
    "isOk r \<Longrightarrow> n \<in> bound_roles P view s c \<Longrightarrow> n \<noteq> [] \<Longrightarrow> CHR ''/'' \<notin> set n \<Longrightarrow>
      tokenAt P view s' n = None"
    by blast+
qed

end

end
