(* ===== verification/Config.thy ===== *)
theory Config
  imports Store
begin

text \<open>
  \<^verbatim>\<open>path_config.go\<close>: the connection configuration of a Salesforce org, with the operations of
  the path \<^verbatim>\<open>config/<name>\<close>. A nil response is \<open>None\<close>, a user mistake an \<open>ErrorResponse\<close>, a Go
  error \<open>Inl\<close>.
\<close>

definition redactedValue :: string where
  "redactedValue = ''<redacted>''"

definition zeroConfig :: salesforceConfig where
  "zeroConfig = \<lparr>LoginURL = [], TokenURL = [], ClientID = [], ClientSecret = [], PrivateKey = [],
     CACert = [], TLSSkipVerify = False, AllowNonSalesforceHost = False\<rparr>"

definition tokenURL :: "salesforceConfig \<Rightarrow> string" where
  "tokenURL c =
     (if TokenURL c \<noteq> [] then TokenURL c
      else TrimRight (LoginURL c) ''/'' @ ''/services/oauth2/token'')"

definition revokeURL :: "salesforceConfig \<Rightarrow> string" where
  "revokeURL c =
     (let t = tokenURL c
      in if HasSuffix t ''/token'' then TrimSuffix t ''/token'' @ ''/revoke''
         else TrimRight (LoginURL c) ''/'' @ ''/services/oauth2/revoke'')"

definition configFields :: "(string \<times> field_schema) list" where
  "configFields =
     [(''name'', \<lparr>field_type_of = TypeString, field_default = None\<rparr>),
      (''login_url'', \<lparr>field_type_of = TypeString, field_default = None\<rparr>),
      (''token_url'', \<lparr>field_type_of = TypeString, field_default = None\<rparr>),
      (''client_id'', \<lparr>field_type_of = TypeString, field_default = None\<rparr>),
      (''client_secret'', \<lparr>field_type_of = TypeString, field_default = None\<rparr>),
      (''private_key'', \<lparr>field_type_of = TypeString, field_default = None\<rparr>),
      (''ca_cert'', \<lparr>field_type_of = TypeString, field_default = None\<rparr>),
      (''tls_skip_verify'', \<lparr>field_type_of = TypeBool, field_default = Some (RBool False)\<rparr>),
      (''allow_non_salesforce_host'', \<lparr>field_type_of = TypeBool, field_default = Some (RBool False)\<rparr>)]"

definition pathConfigExistenceCheck ::
  "('w, 'b, 'k) platform \<Rightarrow> field_data \<Rightarrow> ('w, 'k, bool) op" where
  "pathConfigExistenceCheck P data s = (case getConfig P (GetString data ''name'') s of
      (Inl err, s) \<Rightarrow> (Inl err, s)
    | (Inr cfg, s) \<Rightarrow> (Inr (cfg \<noteq> None), s))"

text \<open>The configuration a write starts from: the stored one or the zero value.\<close>

definition baseConfig :: "salesforceConfig option \<Rightarrow> salesforceConfig" where
  "baseConfig o1 = (case o1 of Some c \<Rightarrow> c | None \<Rightarrow> zeroConfig)"

text \<open>A field the request sets overwrites the value, a field it leaves out keeps it.\<close>

definition supplied :: "'a option \<Rightarrow> 'a \<Rightarrow> 'a" where
  "supplied v old = (case v of Some x \<Rightarrow> x | None \<Rightarrow> old)"

definition applyConfigFields :: "field_data \<Rightarrow> salesforceConfig \<Rightarrow> salesforceConfig" where
  "applyConfigFields data c =
     \<lparr>LoginURL = supplied (GetOkString data ''login_url'') (LoginURL c),
      TokenURL = supplied (GetOkString data ''token_url'') (TokenURL c),
      ClientID = supplied (GetOkString data ''client_id'') (ClientID c),
      ClientSecret = (if GetOkString data ''client_secret'' \<noteq> None
        then GetString data ''client_secret'' else ClientSecret c),
      PrivateKey = (if GetOkString data ''private_key'' \<noteq> None
        then GetString data ''private_key'' else PrivateKey c),
      CACert = supplied (GetOkString data ''ca_cert'') (CACert c),
      TLSSkipVerify = supplied (GetOkBool data ''tls_skip_verify'') (TLSSkipVerify c),
      AllowNonSalesforceHost =
        supplied (GetOkBool data ''allow_non_salesforce_host'') (AllowNonSalesforceHost c)\<rparr>"

definition secretReSupplied :: "field_data \<Rightarrow> bool" where
  "secretReSupplied data \<longleftrightarrow>
     GetOkString data ''client_secret'' \<noteq> None \<or> GetOkString data ''private_key'' \<noteq> None"

definition sensitiveChange :: "salesforceConfig \<Rightarrow> salesforceConfig \<Rightarrow> bool" where
  "sensitiveChange old cfg \<longleftrightarrow>
     TokenURL cfg \<noteq> TokenURL old \<or> LoginURL cfg \<noteq> LoginURL old
     \<or> AllowNonSalesforceHost cfg \<and> \<not> AllowNonSalesforceHost old
     \<or> TLSSkipVerify cfg \<and> \<not> TLSSkipVerify old"

definition holdsSecret :: "salesforceConfig \<Rightarrow> bool" where
  "holdsSecret c \<longleftrightarrow> ClientSecret c \<noteq> [] \<or> PrivateKey c \<noteq> []"

text \<open>The audit log lines of a write.\<close>

definition logConfigTransitions ::
  "('w, 'b, 'k) platform \<Rightarrow> string \<Rightarrow> salesforceConfig option \<Rightarrow> salesforceConfig \<Rightarrow>
     ('w, 'k) engine \<Rightarrow> ('w, 'k) engine" where
  "logConfigTransitions P name oldCfg cfg s =
     (let existing = oldCfg \<noteq> None;
          old = baseConfig oldCfg;
          oldHost = hostOf (Unicode_ToLower P) (tokenURL old);
          newHost = hostOf (Unicode_ToLower P) (tokenURL cfg);
          s1 = (if existing \<and> oldHost \<noteq> newHost then log (HostChanged name oldHost newHost) s else s);
          s2 = (if TLSSkipVerify cfg \<and> (\<not> existing \<or> \<not> TLSSkipVerify old)
                then log (TLSSkipVerifyEnabled name) s1 else s1)
      in if AllowNonSalesforceHost cfg \<and> (\<not> existing \<or> \<not> AllowNonSalesforceHost old)
         then log (NonSalesforceHostAllowed name) s2 else s2)"

text \<open>
  The checks of a write on the merged configuration \<open>cfg\<close>, in the order of the code: the
  required fields, the re-supply of the secret on a sensitive change, the token host.
\<close>

definition checkConfig ::
  "('w, 'b, 'k) platform \<Rightarrow> field_data \<Rightarrow> salesforceConfig option \<Rightarrow> salesforceConfig \<Rightarrow> user_error option" where
  "checkConfig P data oldCfg cfg =
     (let existing = oldCfg \<noteq> None;
          old = baseConfig oldCfg
      in if LoginURL cfg = [] then Some LoginURLRequired
         else if ClientID cfg = [] then Some ClientIDRequired
         else if existing \<and> holdsSecret old \<and> sensitiveChange old cfg \<and> \<not> secretReSupplied data then
           Some SecretResupplyRequired
         else map_option TokenHostRejected
           (validateTokenHost (Unicode_ToLower P) (tokenURL cfg) (AllowNonSalesforceHost cfg)))"

text \<open>The end of a write: store the configuration, then drop the tokens minted under the old one.\<close>

definition storeConfig :: "('w, 'b, 'k) platform \<Rightarrow> string \<Rightarrow> salesforceConfig \<Rightarrow> ('w, 'k) handler" where
  "storeConfig P name cfg s = (case EncodeConfig P cfg of
      Inl err \<Rightarrow> (Inl err, s)
    | Inr entry \<Rightarrow>
      (case st_Put P (configStoragePrefix @ name) entry s of
         (Inl err, s) \<Rightarrow> (Inl err, s)
       | (Inr _, s) \<Rightarrow>
         (case deleteCachedTokensForConfig P name s of
            (Inl err, s) \<Rightarrow> (Inl err, s)
          | (Inr _, s) \<Rightarrow> (Inr None, s))))"

definition pathConfigWrite :: "('w, 'b, 'k) platform \<Rightarrow> field_data \<Rightarrow> ('w, 'k) handler" where
  "pathConfigWrite P data s =
     (let name = GetString data ''name''
      in if name = [] then (Inr (Some (ErrorResponse MissingConfigurationName)), s)
      else case getConfig P name s of
        (Inl err, s) \<Rightarrow> (Inl err, s)
      | (Inr oldCfg, s) \<Rightarrow>
        (let cfg = applyConfigFields data (baseConfig oldCfg)
         in case checkConfig P data oldCfg cfg of
              Some e \<Rightarrow> (Inr (Some (ErrorResponse e)), s)
            | None \<Rightarrow> storeConfig P name cfg (logConfigTransitions P name oldCfg cfg s)))"

definition redactedMap :: "salesforceConfig \<Rightarrow> string \<rightharpoonup> rvalue" where
  "redactedMap c =
     [''login_url'' \<mapsto> RString (LoginURL c),
      ''token_url'' \<mapsto> RString (tokenURL c),
      ''client_id'' \<mapsto> RString (ClientID c),
      ''ca_cert'' \<mapsto> RString (CACert c),
      ''tls_skip_verify'' \<mapsto> RBool (TLSSkipVerify c),
      ''allow_non_salesforce_host'' \<mapsto> RBool (AllowNonSalesforceHost c),
      ''client_secret'' \<mapsto> RString (if ClientSecret c \<noteq> [] then redactedValue else []),
      ''private_key'' \<mapsto> RString (if PrivateKey c \<noteq> [] then redactedValue else [])]"

definition pathConfigRead :: "('w, 'b, 'k) platform \<Rightarrow> field_data \<Rightarrow> ('w, 'k) handler" where
  "pathConfigRead P data s = (case getConfig P (GetString data ''name'') s of
      (Inl err, s) \<Rightarrow> (Inl err, s)
    | (Inr None, s) \<Rightarrow> (Inr None, s)
    | (Inr (Some cfg), s) \<Rightarrow> (Inr (Some (DataResponse (redactedMap cfg))), s))"

definition pathConfigDelete :: "('w, 'b, 'k) platform \<Rightarrow> field_data \<Rightarrow> ('w, 'k) handler" where
  "pathConfigDelete P data s =
     (let name = GetString data ''name''
      in case deleteCachedTokensForConfig P name s of
        (Inl err, s) \<Rightarrow> (Inl err, s)
      | (Inr _, s) \<Rightarrow>
        (case st_Delete P (configStoragePrefix @ name) s of
           (Inl err, s) \<Rightarrow> (Inl err, s)
         | (Inr _, s) \<Rightarrow> (Inr None, s)))"

definition pathConfigList :: "('w, 'b, 'k) platform \<Rightarrow> ('w, 'k) handler" where
  "pathConfigList P s = (case st_List P configStoragePrefix s of
      (Inl err, s) \<Rightarrow> (Inl err, s)
    | (Inr names, s) \<Rightarrow> (Inr (Some (ListResponse names)), s))"

section \<open>Well-formed configurations\<close>

definition config_ok :: "('w, 'b, 'k) platform \<Rightarrow> salesforceConfig \<Rightarrow> bool" where
  "config_ok P c \<longleftrightarrow> LoginURL c \<noteq> [] \<and> ClientID c \<noteq> []
     \<and> validateTokenHost (Unicode_ToLower P) (tokenURL c) (AllowNonSalesforceHost c) = None"

definition configs_ok :: "('w, 'b, 'k) platform \<Rightarrow> ('w, 'b) view \<Rightarrow> ('w, 'k) engine \<Rightarrow> bool" where
  "configs_ok P view s \<longleftrightarrow> (\<forall>n c. configAt P view s n = Some c \<longrightarrow> config_ok P c)"

text \<open>The configuration a write is about to store.\<close>

definition writtenConfig ::
  "('w, 'b, 'k) platform \<Rightarrow> ('w, 'b) view \<Rightarrow> field_data \<Rightarrow> ('w, 'k) engine \<Rightarrow> salesforceConfig" where
  "writtenConfig P view data s = applyConfigFields data (baseConfig (configAt P view s (GetString data ''name'')))"

text \<open>The re-supply guard: the write would repoint or weaken a config that holds a secret.\<close>

definition resupply_blocked :: "salesforceConfig option \<Rightarrow> field_data \<Rightarrow> bool" where
  "resupply_blocked oldCfg data \<longleftrightarrow> (case oldCfg of
      None \<Rightarrow> False
    | Some old \<Rightarrow> holdsSecret old \<and> sensitiveChange old (applyConfigFields data old) \<and> \<not> secretReSupplied data)"

lemma logConfigTransitions_frame:
  "ext (logConfigTransitions P n oc c s) = ext s"
  "rsaKeyCache (logConfigTransitions P n oc c s) = rsaKeyCache s"
  by (simp_all add: logConfigTransitions_def log_def Let_def)

lemma zeroConfig_text: "config_text zeroConfig"
  by (simp add: config_text_def zeroConfig_def ValidString.simps)

lemma supplied_text:
  assumes "data_text data"
  shows "ValidString old \<Longrightarrow> ValidString (supplied (GetOkString data k) old)"
    and "list_all ValidString olds \<Longrightarrow> list_all ValidString (supplied (GetOkStrings data k) olds)"
    and "ValidString old \<Longrightarrow> ValidString (if GetOkString data k \<noteq> None then GetString data k else old)"
  using assms by (auto simp: supplied_def data_text_def split: option.splits)

lemma applyConfigFields_text:
  assumes "config_text c" "data_text data"
  shows "config_text (applyConfigFields data c)"
  using assms(1) supplied_text [OF assms(2)] by (simp add: config_text_def applyConfigFields_def)

lemma checkConfig_None:
  assumes "checkConfig P data oc (applyConfigFields data (baseConfig oc)) = None"
  shows "config_ok P (applyConfigFields data (baseConfig oc))" "\<not> resupply_blocked oc data"
  using assms
  by (auto simp: checkConfig_def config_ok_def resupply_blocked_def baseConfig_def Let_def
      split: if_splits option.splits)

context barrier
begin

text \<open>
  What storing a configuration does: the entry is written, or may be when the storage
  fails, and cached tokens of bound roles are dropped, all of them on success.
\<close>

lemma storeConfig_mid:
  assumes "storeConfig P n cfg s = (r, s')"
  obtains s1 where
    "view (ext s1) = view (ext s) \<or>
       (\<exists>b. EncodeConfig P cfg = Inr b \<and> view (ext s1) = (view (ext s))(configStoragePrefix @ n \<mapsto> b))"
    "drops_tokens view (bound_roles P view s n) s1 s'"
    "r = Inr None \<Longrightarrow> \<exists>b. EncodeConfig P cfg = Inr b \<and> view (ext s1) = (view (ext s))(configStoragePrefix @ n \<mapsto> b)"
    "\<And>m. r = Inr None \<Longrightarrow> m \<in> bound_roles P view s n \<Longrightarrow> m \<noteq> [] \<Longrightarrow> CHR ''/'' \<notin> set m \<Longrightarrow>
      tokenAt P view s' m = None"
    "r = Inr None \<or> (\<exists>e. r = Inl e)" "rsaKeyCache s' = rsaKeyCache s" "logs s' = logs s"
proof (cases "EncodeConfig P cfg")
  case (Inl e)
  with assms show thesis by (intro that [of s]) (auto simp: storeConfig_def intro: drops_tokens_refl)
next
  case enc: (Inr b)
  obtain r2 s2 where p: "st_Put P (configStoragePrefix @ n) b s = (r2, s2)" by fastforce
  note ps = st_Put_spec [OF p]
  show thesis
  proof (cases r2)
    case (Inl e)
    with assms enc p have "r = Inl e" "s' = s2" by (simp_all add: storeConfig_def)
    with ps enc show thesis by (intro that [of s2]) (auto intro: drops_tokens_refl)
  next
    case (Inr u)
    then have v2: "view (ext s2) = (view (ext s))(configStoragePrefix @ n \<mapsto> b)" using ps(4) by simp
    have roles: "bound_roles P view s2 n = bound_roles P view s n"
      using contents_other_keys(1) [OF v2] by (simp add: bound_roles_def)
    obtain r3 where d: "deleteCachedTokensForConfig P n s2 = (r3, s')"
      and r3: "r = Inr None \<and> isOk r3 \<or> (\<exists>e. r = Inl e)"
      using assms enc p Inr by (auto simp: storeConfig_def split: sum.splits prod.splits)
    note ds = deleteCachedTokensForConfig_spec [OF d, unfolded roles]
    show thesis
      using v2 enc ds r3 ps(2,3) by (intro that [of s2]) auto
  qed
qed

lemma storeConfig_spec:
  assumes "storeConfig P n cfg s = (r, s')" "config_text cfg"
  shows "configAt P view s' n = configAt P view s n \<or> configAt P view s' n = Some cfg"
    and "r = Inr None \<Longrightarrow> configAt P view s' n = Some cfg"
    and "m \<noteq> n \<Longrightarrow> configAt P view s' m = configAt P view s m"
    and "roleAt P view s' = roleAt P view s"
    and "tokenAt P view s' m = tokenAt P view s m \<or> tokenAt P view s' m = None \<and> m \<in> bound_roles P view s n"
    and "r = Inr None \<Longrightarrow> m \<in> bound_roles P view s n \<Longrightarrow> m \<noteq> [] \<Longrightarrow> CHR ''/'' \<notin> set m \<Longrightarrow>
      tokenAt P view s' m = None"
    and "r = Inr None \<or> (\<exists>e. r = Inl e)"
    and "rsaKeyCache s' = rsaKeyCache s"
proof -
  obtain s1 where s1: "view (ext s1) = view (ext s) \<or>
       (\<exists>b. EncodeConfig P cfg = Inr b \<and> view (ext s1) = (view (ext s))(configStoragePrefix @ n \<mapsto> b))"
    and drop: "drops_tokens view (bound_roles P view s n) s1 s'"
    and ok: "r = Inr None \<Longrightarrow> \<exists>b. EncodeConfig P cfg = Inr b \<and> view (ext s1) = (view (ext s))(configStoragePrefix @ n \<mapsto> b)"
    and gone: "\<And>m. r = Inr None \<Longrightarrow> m \<in> bound_roles P view s n \<Longrightarrow> m \<noteq> [] \<Longrightarrow> CHR ''/'' \<notin> set m \<Longrightarrow>
      tokenAt P view s' m = None"
    and res: "r = Inr None \<or> (\<exists>e. r = Inl e)" "rsaKeyCache s' = rsaKeyCache s"
    using storeConfig_mid [OF assms(1)] by metis
  note drops = drops_tokens_contents [OF drop]
  have upd: "configAt P view s1 n = Some cfg"
    if "EncodeConfig P cfg = Inr b" "view (ext s1) = (view (ext s))(configStoragePrefix @ n \<mapsto> b)" for b
    using that config_roundtrip [OF assms(2)] by (simp add: configAt_def)
  show "configAt P view s' n = configAt P view s n \<or> configAt P view s' n = Some cfg"
    using s1 upd drops(1) by (auto simp: configAt_def)
  show "r = Inr None \<Longrightarrow> configAt P view s' n = Some cfg"
    using ok upd drops(1) by metis
  show "m \<noteq> n \<Longrightarrow> configAt P view s' m = configAt P view s m"
    using s1 drops(1) by (auto simp: configAt_def)
  show "roleAt P view s' = roleAt P view s"
    using s1 drops(2) by (auto simp: roleAt_def fun_eq_iff prefix_defs)
  have "tokenAt P view s1 = tokenAt P view s"
    using s1 by (auto simp: tokenAt_def fun_eq_iff prefix_defs)
  then show "tokenAt P view s' m = tokenAt P view s m \<or> tokenAt P view s' m = None \<and> m \<in> bound_roles P view s n"
    using drops(3) [of P m] by simp
  show "r = Inr None \<Longrightarrow> m \<in> bound_roles P view s n \<Longrightarrow> m \<noteq> [] \<Longrightarrow> CHR ''/'' \<notin> set m \<Longrightarrow>
      tokenAt P view s' m = None"
    by (rule gone)
  show "r = Inr None \<or> (\<exists>e. r = Inl e)" "rsaKeyCache s' = rsaKeyCache s"
    by (rule res)+
qed

text \<open>A write ends before it stores anything, or it passed every check.\<close>

lemma pathConfigWrite_cases:
  assumes w: "pathConfigWrite P data s = (r, s')"
  obtains (refused) e where "same_store view s s'" "rsaKeyCache s' = rsaKeyCache s" "r = Inr (Some (ErrorResponse e))"
  | (failed) e where "same_store view s s'" "rsaKeyCache s' = rsaKeyCache s" "r = Inl e"
  | (stored) s1 where "GetString data ''name'' \<noteq> []"
      "checkConfig P data (configAt P view s (GetString data ''name'')) (writtenConfig P view data s) = None"
      "same_store view s s1" "rsaKeyCache s1 = rsaKeyCache s"
      "storeConfig P (GetString data ''name'') (writtenConfig P view data s) s1 = (r, s')"
proof -
  let ?n = "GetString data ''name''"
  let ?cfg = "writtenConfig P view data s"
  obtain oc s0 where g: "getConfig P ?n s = (oc, s0)" by fastforce
  note gs = getConfig_spec [OF g]
  show thesis
  proof (cases "?n = []")
    case True
    with w refused show thesis by (auto simp: pathConfigWrite_def)
  next
    case name: False
    show thesis
    proof (cases oc)
      case (Inl e)
      with w g name gs failed show thesis by (auto simp: pathConfigWrite_def)
    next
      case (Inr o1)
      then have o1: "o1 = configAt P view s ?n" using gs(4) by blast
      have "(case checkConfig P data o1 ?cfg of
              Some e \<Rightarrow> (Inr (Some (ErrorResponse e)), s0)
            | None \<Rightarrow> storeConfig P ?n ?cfg (logConfigTransitions P ?n o1 ?cfg s0)) = (r, s')"
        using w name g unfolding Inr o1 writtenConfig_def by (simp add: pathConfigWrite_def Let_def)
      then show thesis
        using gs(1,2) name o1 refused stored [of "logConfigTransitions P ?n o1 ?cfg s0"]
        by (cases "checkConfig P data o1 ?cfg")
          (auto simp: same_store_def logConfigTransitions_frame)
    qed
  qed
qed

lemma configAt_text: "configAt P view s n = Some c \<Longrightarrow> config_text c"
  by (auto simp: configAt_def bind_eq_Some_conv dest: config_decoded)

lemma writtenConfig_text: "data_text data \<Longrightarrow> config_text (writtenConfig P view data s)"
  unfolding writtenConfig_def
  by (intro applyConfigFields_text)
    (auto simp: baseConfig_def zeroConfig_text dest: configAt_text split: option.splits)

lemma pathConfigDelete_spec:
  assumes "pathConfigDelete P data s = (r, s')" and n: "n = GetString data ''name''"
  shows "m \<noteq> n \<Longrightarrow> configAt P view s' m = configAt P view s m"
    and "configAt P view s' n \<in> {configAt P view s n, None}"
    and "roleAt P view s' = roleAt P view s"
    and "tokenAt P view s' m = tokenAt P view s m \<or> tokenAt P view s' m = None \<and> m \<in> bound_roles P view s n"
    and "isOk r \<Longrightarrow> r = Inr None \<and> configAt P view s' n = None"
    and "isOk r \<Longrightarrow> m \<in> bound_roles P view s n \<Longrightarrow> m \<noteq> [] \<Longrightarrow> CHR ''/'' \<notin> set m \<Longrightarrow>
      tokenAt P view s' m = None"
    and "rsaKeyCache s' = rsaKeyCache s"
proof -
  obtain r1 s1 where d: "deleteCachedTokensForConfig P n s = (r1, s1)" by fastforce
  note ds = deleteCachedTokensForConfig_spec [OF d]
  note drops = drops_tokens_contents [OF ds(1)]
  consider (stop) e where "r1 = Inl e" "r = Inl e" "s' = s1"
    | (del) u r2 where "r1 = Inr u" "st_Delete P (configStoragePrefix @ n) s1 = (r2, s')"
        "isOk r = isOk r2" "isOk r \<longrightarrow> r = Inr None"
    using assms d by (cases r1) (auto simp: pathConfigDelete_def Let_def split: prod.splits sum.splits)
  then have v: "(view (ext s') = view (ext s1) \<and> \<not> isOk r
      \<or> view (ext s') = (view (ext s1))(configStoragePrefix @ n := None) \<and> isOk r1)
    \<and> (isOk r \<longrightarrow> r = Inr None \<and> isOk r1) \<and> rsaKeyCache s' = rsaKeyCache s1"
    by cases (auto dest: st_Delete_spec)
  then have config: "configAt P view s' = configAt P view s1 \<and> \<not> isOk r
      \<or> configAt P view s' = (configAt P view s1)(n := None)"
    and role: "roleAt P view s' = roleAt P view s1" and token: "tokenAt P view s' = tokenAt P view s1"
    by (auto simp: configAt_def roleAt_def tokenAt_def fun_eq_iff prefix_defs)
  show "m \<noteq> n \<Longrightarrow> configAt P view s' m = configAt P view s m"
    "configAt P view s' n \<in> {configAt P view s n, None}"
    "isOk r \<Longrightarrow> r = Inr None \<and> configAt P view s' n = None"
    using config drops(1) v by (auto split: if_splits)
  show "roleAt P view s' = roleAt P view s"
    "tokenAt P view s' m = tokenAt P view s m \<or> tokenAt P view s' m = None \<and> m \<in> bound_roles P view s n"
    "isOk r \<Longrightarrow> m \<in> bound_roles P view s n \<Longrightarrow> m \<noteq> [] \<Longrightarrow> CHR ''/'' \<notin> set m \<Longrightarrow> tokenAt P view s' m = None"
    "rsaKeyCache s' = rsaKeyCache s"
    using role token drops ds(2,3) v by auto
qed

lemma pathConfigRead_spec:
  assumes "pathConfigRead P data s = (r, s')"
  shows "same_store view s s'" "rsaKeyCache s' = rsaKeyCache s"
    and "r = Inr res \<Longrightarrow> res = map_option (\<lambda>c. DataResponse (redactedMap c)) (configAt P view s (GetString data ''name''))"
proof -
  obtain oc s0 where g: "getConfig P (GetString data ''name'') s = (oc, s0)" by fastforce
  note gs = getConfig_spec [OF g]
  have "s' = s0" using assms g by (auto simp: pathConfigRead_def split: sum.splits option.splits)
  then show "same_store view s s'" "rsaKeyCache s' = rsaKeyCache s" using gs by simp_all
  show "r = Inr res \<Longrightarrow> res = map_option (\<lambda>c. DataResponse (redactedMap c)) (configAt P view s (GetString data ''name''))"
    using assms g gs(4) by (auto simp: pathConfigRead_def split: sum.splits option.splits)
qed

text \<open>Every operation keeps the stored configurations acceptable.\<close>

lemma configs_ok_same: "configs_ok P view s \<Longrightarrow> configAt P view s' = configAt P view s \<Longrightarrow> configs_ok P view s'"
  by (simp add: configs_ok_def)

lemma pathConfigWrite_configs_ok:
  assumes "pathConfigWrite P data s = (r, s')" "data_text data" "configs_ok P view s"
  shows "configs_ok P view s'"
  using assms(1)
proof (cases rule: pathConfigWrite_cases)
  case (stored s1)
  note spec = storeConfig_spec [OF stored(5) writtenConfig_text [OF assms(2)], unfolded same_store_contents [OF stored(3)]]
  have "config_ok P (writtenConfig P view data s)"
    using checkConfig_None(1) stored(2) unfolding writtenConfig_def .
  then show ?thesis
    using assms(3) spec(1,3) unfolding configs_ok_def by (metis option.inject)
qed (use assms(3) configs_ok_same same_store_contents(1) in metis)+

lemma pathConfigDelete_configs_ok:
  assumes "pathConfigDelete P data s = (r, s')" "configs_ok P view s"
  shows "configs_ok P view s'"
  using pathConfigDelete_spec(1,2) [OF assms(1) refl] assms(2)
  unfolding configs_ok_def by (metis empty_iff insertE option.distinct(1))

end

end
