(* ===== verification/Roles.thy ===== *)
theory Roles
  imports Config
begin

text \<open>
  \<^verbatim>\<open>path_roles.go\<close>: token-issuing roles, with the operations of the path \<^verbatim>\<open>roles/<name>\<close>.
\<close>

definition grantJWTBearer :: string where
  "grantJWTBearer = ''jwt_bearer''"

definition grantClientCredential :: string where
  "grantClientCredential = ''client_credentials''"

definition zeroRole :: salesforceRole where
  "zeroRole = \<lparr>Config = [], GrantType = [], Username = [], Scopes = [], TokenTTL = 0, TTL = 0,
     MaxTTL = 0, RenewSkew = 0, JWTExpiry = 0, Audience = [], UseIntrospection = False,
     RevokeTokens = False\<rparr>"

definition roleFields :: "(string \<times> field_schema) list" where
  "roleFields =
     [(''name'', \<lparr>field_type_of = TypeString, field_default = None\<rparr>),
      (''config'', \<lparr>field_type_of = TypeString, field_default = None\<rparr>),
      (''grant_type'', \<lparr>field_type_of = TypeString, field_default = None\<rparr>),
      (''username'', \<lparr>field_type_of = TypeString, field_default = None\<rparr>),
      (''scopes'', \<lparr>field_type_of = TypeCommaStringSlice, field_default = None\<rparr>),
      (''token_ttl'', \<lparr>field_type_of = TypeDurationSecond, field_default = Some (RInt 900)\<rparr>),
      (''ttl'', \<lparr>field_type_of = TypeDurationSecond, field_default = None\<rparr>),
      (''max_ttl'', \<lparr>field_type_of = TypeDurationSecond, field_default = None\<rparr>),
      (''renew_skew'', \<lparr>field_type_of = TypeDurationSecond, field_default = Some (RInt 60)\<rparr>),
      (''jwt_expiry'', \<lparr>field_type_of = TypeDurationSecond, field_default = Some (RInt 180)\<rparr>),
      (''audience'', \<lparr>field_type_of = TypeString, field_default = None\<rparr>),
      (''use_introspection'', \<lparr>field_type_of = TypeBool, field_default = Some (RBool False)\<rparr>),
      (''revoke_tokens'', \<lparr>field_type_of = TypeBool, field_default = Some (RBool False)\<rparr>)]"

definition pathRoleExistenceCheck ::
  "('w, 'b, 'k) platform \<Rightarrow> field_data \<Rightarrow> ('w, 'k, bool) op" where
  "pathRoleExistenceCheck P data s = (case getRole P (GetString data ''name'') s of
      (Inl err, s) \<Rightarrow> (Inl err, s)
    | (Inr role, s) \<Rightarrow> (Inr (role \<noteq> None), s))"

definition baseRole :: "salesforceRole option \<Rightarrow> salesforceRole" where
  "baseRole o1 = (case o1 of Some r \<Rightarrow> r | None \<Rightarrow> zeroRole)"

text \<open>
  A duration with a schema default: the value of the request, or the default when the role
  has none yet.
\<close>

definition durationOrDefault :: "field_data \<Rightarrow> string \<Rightarrow> Duration \<Rightarrow> Duration" where
  "durationOrDefault data key old = (case GetOkInt data key of
      Some v \<Rightarrow> secs v
    | None \<Rightarrow> if old = 0 then secs (GetInt data key) else old)"

definition durationField :: "field_data \<Rightarrow> string \<Rightarrow> Duration \<Rightarrow> Duration" where
  "durationField data key old = (case GetOkInt data key of Some v \<Rightarrow> secs v | None \<Rightarrow> old)"

definition applyRoleFields :: "field_data \<Rightarrow> salesforceRole \<Rightarrow> salesforceRole" where
  "applyRoleFields data r =
     \<lparr>Config = supplied (GetOkString data ''config'') (Config r),
      GrantType = supplied (GetOkString data ''grant_type'') (GrantType r),
      Username = supplied (GetOkString data ''username'') (Username r),
      Scopes = supplied (GetOkStrings data ''scopes'') (Scopes r),
      TokenTTL = durationOrDefault data ''token_ttl'' (TokenTTL r),
      TTL = durationField data ''ttl'' (TTL r),
      MaxTTL = durationField data ''max_ttl'' (MaxTTL r),
      RenewSkew = durationOrDefault data ''renew_skew'' (RenewSkew r),
      JWTExpiry = durationOrDefault data ''jwt_expiry'' (JWTExpiry r),
      Audience = supplied (GetOkString data ''audience'') (Audience r),
      UseIntrospection = supplied (GetOkBool data ''use_introspection'') (UseIntrospection r),
      RevokeTokens = supplied (GetOkBool data ''revoke_tokens'') (RevokeTokens r)\<rparr>"

text \<open>The identity of an existing role cannot be repointed.\<close>

definition checkImmutable :: "salesforceRole option \<Rightarrow> salesforceRole \<Rightarrow> user_error option" where
  "checkImmutable oldRole role = (case oldRole of
      None \<Rightarrow> None
    | Some old \<Rightarrow>
        if Username role \<noteq> Username old then Some UsernameImmutable
        else if Config role \<noteq> Config old then Some ConfigImmutable
        else None)"

text \<open>The checks of \<^verbatim>\<open>validateRole\<close> that need no storage.\<close>

definition checkRoleFields :: "salesforceRole \<Rightarrow> user_error option" where
  "checkRoleFields role =
     (if Config role = [] then Some ConfigRequired
      else if GrantType role \<noteq> grantJWTBearer \<and> GrantType role \<noteq> grantClientCredential then
        Some InvalidGrantType
      else if 0 < MaxTTL role \<and> MaxTTL role < TTL role then
        Some (TTLExceedsMaxTTL (TTL role) (MaxTTL role))
      else if 5 * time_Minute < JWTExpiry role then Some (JWTExpiryTooLong (JWTExpiry role))
      else if RenewSkew role < 0 then Some (RenewSkewNegative (RenewSkew role))
      else if 0 < TokenTTL role \<and> TokenTTL role \<le> RenewSkew role then
        Some (RenewSkewTooLong (RenewSkew role) (TokenTTL role))
      else None)"

text \<open>The secret material the grant flow needs from the bound configuration.\<close>

definition checkGrantMaterial :: "salesforceRole \<Rightarrow> salesforceConfig \<Rightarrow> user_error option" where
  "checkGrantMaterial role cfg =
     (if GrantType role = grantJWTBearer then
        (if Username role = [] then Some UsernameRequired
         else if PrivateKey cfg = [] then Some (ConfigHasNoPrivateKey (Config role))
         else None)
      else if GrantType role = grantClientCredential then
        (if ClientSecret cfg = [] then Some (ConfigHasNoClientSecret (Config role)) else None)
      else None)"

definition validateRole ::
  "('w, 'b, 'k) platform \<Rightarrow> salesforceRole \<Rightarrow> ('w, 'k) engine \<Rightarrow> user_error option \<times> ('w, 'k) engine" where
  "validateRole P role s = (case checkRoleFields role of
      Some e \<Rightarrow> (Some e, s)
    | None \<Rightarrow>
      (case getConfig P (Config role) s of
         (Inl err, s) \<Rightarrow> (Some (ErrorLoadingConfig (Config role) err), s)
       | (Inr None, s) \<Rightarrow> (Some (ConfigDoesNotExist (Config role)), s)
       | (Inr (Some cfg), s) \<Rightarrow> (checkGrantMaterial role cfg, s)))"

definition storeRole :: "('w, 'b, 'k) platform \<Rightarrow> string \<Rightarrow> salesforceRole \<Rightarrow> ('w, 'k) handler" where
  "storeRole P name role s = (case EncodeRole P role of
      Inl err \<Rightarrow> (Inl err, s)
    | Inr entry \<Rightarrow>
      (case st_Put P (rolesStoragePrefix @ name) entry s of
         (Inl err, s) \<Rightarrow> (Inl err, s)
       | (Inr _, s) \<Rightarrow>
         (case deleteCachedToken P name s of
            (Inl err, s) \<Rightarrow> (Inl err, s)
          | (Inr _, s) \<Rightarrow> (Inr (if UseIntrospection role then Some IntrospectionWarning else None), s))))"

definition pathRoleWrite :: "('w, 'b, 'k) platform \<Rightarrow> field_data \<Rightarrow> ('w, 'k) handler" where
  "pathRoleWrite P data s =
     (let name = GetString data ''name''
      in if name = [] then (Inr (Some (ErrorResponse MissingRoleName)), s)
      else case getRole P name s of
        (Inl err, s) \<Rightarrow> (Inl err, s)
      | (Inr oldRole, s) \<Rightarrow>
        (let role = applyRoleFields data (baseRole oldRole)
         in case checkImmutable oldRole role of
              Some e \<Rightarrow> (Inr (Some (ErrorResponse e)), s)
            | None \<Rightarrow>
              (case validateRole P role s of
                 (Some e, s) \<Rightarrow> (Inr (Some (ErrorResponse e)), s)
               | (None, s) \<Rightarrow> storeRole P name role s)))"

definition roleMap :: "salesforceRole \<Rightarrow> string \<rightharpoonup> rvalue" where
  "roleMap r =
     [''config'' \<mapsto> RString (Config r),
      ''grant_type'' \<mapsto> RString (GrantType r),
      ''username'' \<mapsto> RString (Username r),
      ''scopes'' \<mapsto> RStrings (Scopes r),
      ''token_ttl'' \<mapsto> RInt (whole_seconds (TokenTTL r)),
      ''ttl'' \<mapsto> RInt (whole_seconds (TTL r)),
      ''max_ttl'' \<mapsto> RInt (whole_seconds (MaxTTL r)),
      ''renew_skew'' \<mapsto> RInt (whole_seconds (RenewSkew r)),
      ''jwt_expiry'' \<mapsto> RInt (whole_seconds (JWTExpiry r)),
      ''audience'' \<mapsto> RString (Audience r),
      ''use_introspection'' \<mapsto> RBool (UseIntrospection r),
      ''revoke_tokens'' \<mapsto> RBool (RevokeTokens r)]"

definition pathRoleRead :: "('w, 'b, 'k) platform \<Rightarrow> field_data \<Rightarrow> ('w, 'k) handler" where
  "pathRoleRead P data s = (case getRole P (GetString data ''name'') s of
      (Inl err, s) \<Rightarrow> (Inl err, s)
    | (Inr None, s) \<Rightarrow> (Inr None, s)
    | (Inr (Some role), s) \<Rightarrow> (Inr (Some (DataResponse (roleMap role))), s))"

definition pathRoleDelete :: "('w, 'b, 'k) platform \<Rightarrow> field_data \<Rightarrow> ('w, 'k) handler" where
  "pathRoleDelete P data s =
     (let name = GetString data ''name''
      in case deleteCachedToken P name s of
        (Inl err, s) \<Rightarrow> (Inl err, s)
      | (Inr _, s) \<Rightarrow>
        (case st_Delete P (rolesStoragePrefix @ name) s of
           (Inl err, s) \<Rightarrow> (Inl err, s)
         | (Inr _, s) \<Rightarrow> (Inr None, s)))"

definition pathRoleList :: "('w, 'b, 'k) platform \<Rightarrow> ('w, 'k) handler" where
  "pathRoleList P s = (case st_List P rolesStoragePrefix s of
      (Inl err, s) \<Rightarrow> (Inl err, s)
    | (Inr names, s) \<Rightarrow> (Inr (Some (ListResponse names)), s))"

section \<open>Well-formed roles\<close>

definition role_ok :: "salesforceRole \<Rightarrow> bool" where
  "role_ok r \<longleftrightarrow> checkRoleFields r = None \<and> (GrantType r = grantJWTBearer \<longrightarrow> Username r \<noteq> [])"

lemma role_ok_iff:
  "role_ok r \<longleftrightarrow> Config r \<noteq> [] \<and> GrantType r \<in> {grantJWTBearer, grantClientCredential}
     \<and> (0 < MaxTTL r \<longrightarrow> TTL r \<le> MaxTTL r) \<and> JWTExpiry r \<le> 5 * time_Minute
     \<and> 0 \<le> RenewSkew r \<and> (0 < TokenTTL r \<longrightarrow> RenewSkew r < TokenTTL r)
     \<and> (GrantType r = grantJWTBearer \<longrightarrow> Username r \<noteq> [])"
  by (auto simp: role_ok_def checkRoleFields_def)

definition roles_ok :: "('w, 'b, 'k) platform \<Rightarrow> ('w, 'b) view \<Rightarrow> ('w, 'k) engine \<Rightarrow> bool" where
  "roles_ok P view s \<longleftrightarrow> (\<forall>n r. roleAt P view s n = Some r \<longrightarrow> role_ok r)"

text \<open>The role a write is about to store.\<close>

definition writtenRole ::
  "('w, 'b, 'k) platform \<Rightarrow> ('w, 'b) view \<Rightarrow> field_data \<Rightarrow> ('w, 'k) engine \<Rightarrow> salesforceRole" where
  "writtenRole P view data s = applyRoleFields data (baseRole (roleAt P view s (GetString data ''name'')))"

lemma grants_distinct [simp]: "grantJWTBearer \<noteq> grantClientCredential" "grantClientCredential \<noteq> grantJWTBearer"
  by (simp_all add: grantJWTBearer_def grantClientCredential_def)

lemma zeroRole_text: "role_text zeroRole"
  by (simp add: role_text_def zeroRole_def in_int64_def)

lemma durations_text:
  "in_int64 old \<Longrightarrow> in_int64 (durationOrDefault data k old)" "in_int64 old \<Longrightarrow> in_int64 (durationField data k old)"
  by (simp_all add: durationOrDefault_def durationField_def split: option.splits)

lemma applyRoleFields_text:
  assumes "role_text r" "data_text data"
  shows "role_text (applyRoleFields data r)"
  using assms(1) supplied_text [OF assms(2)] durations_text by (simp add: role_text_def applyRoleFields_def)

text \<open>The text of a read-back role with durations that fit the 64-bit range.\<close>

context barrier
begin

lemma roleAt_text: "roleAt P view s n = Some r \<Longrightarrow> role_text r"
  by (auto simp: roleAt_def bind_eq_Some_conv dest: role_decoded)

lemma writtenRole_text: "data_text data \<Longrightarrow> role_text (writtenRole P view data s)"
  unfolding writtenRole_def
  by (intro applyRoleFields_text)
    (auto simp: baseRole_def zeroRole_text dest: roleAt_text split: option.splits)

lemma validateRole_spec:
  assumes "validateRole P role s = (e, s')"
  shows "same_store view s s'" "rsaKeyCache s' = rsaKeyCache s"
    and "e = None \<Longrightarrow> \<exists>cfg. configAt P view s (Config role) = Some cfg \<and> checkRoleFields role = None
      \<and> checkGrantMaterial role cfg = None"
proof -
  obtain oc s0 where g: "getConfig P (Config role) s = (oc, s0)" by fastforce
  note gs = getConfig_spec [OF g]
  show "same_store view s s'" "rsaKeyCache s' = rsaKeyCache s"
    using assms g gs(1,2) by (auto simp: validateRole_def split: option.splits sum.splits)
  show "\<exists>cfg. configAt P view s (Config role) = Some cfg \<and> checkRoleFields role = None
      \<and> checkGrantMaterial role cfg = None" if "e = None"
    using assms g gs(4) that by (auto simp: validateRole_def split: option.splits sum.splits)
qed

lemma storeRole_spec:
  assumes "storeRole P n ro s = (r, s')" "role_text ro"
  shows "roleAt P view s' n = roleAt P view s n \<or> roleAt P view s' n = Some ro"
    and "isOk r \<Longrightarrow> roleAt P view s' n = Some ro \<and> tokenAt P view s' n = None
      \<and> r = Inr (if UseIntrospection ro then Some IntrospectionWarning else None)"
    and "m \<noteq> n \<Longrightarrow> roleAt P view s' m = roleAt P view s m"
    and "configAt P view s' = configAt P view s"
    and "tokenAt P view s' m = tokenAt P view s m \<or> tokenAt P view s' m = None \<and> m = n"
    and "rsaKeyCache s' = rsaKeyCache s"
proof -
  obtain s1 where v: "view (ext s1) = view (ext s) \<and> \<not> isOk r
      \<or> (\<exists>b. EncodeRole P ro = Inr b \<and> view (ext s1) = (view (ext s))(rolesStoragePrefix @ n \<mapsto> b))"
    and drop: "drops_tokens view {n} s1 s'"
    and ok: "isOk r \<Longrightarrow> tokenAt P view s' n = None
      \<and> r = Inr (if UseIntrospection ro then Some IntrospectionWarning else None)"
    and cache: "rsaKeyCache s' = rsaKeyCache s"
  proof (cases "EncodeRole P ro")
    case (Inl e)
    with assms(1) show thesis by (intro that [of s]) (auto simp: storeRole_def intro: drops_tokens_refl)
  next
    case enc: (Inr b)
    obtain r2 s2 where p: "st_Put P (rolesStoragePrefix @ n) b s = (r2, s2)" by fastforce
    note ps = st_Put_spec [OF p]
    show thesis
    proof (cases r2)
      case (Inl e)
      with assms(1) enc p have "r = Inl e" "s' = s2" by (simp_all add: storeRole_def)
      with ps enc show thesis by (intro that [of s2]) (auto intro: drops_tokens_refl)
    next
      case (Inr u)
      obtain r3 where d: "deleteCachedToken P n s2 = (r3, s')"
        and r3: "isOk r3 \<and> r = Inr (if UseIntrospection ro then Some IntrospectionWarning else None) \<or> \<not> isOk r"
        using assms(1) enc p Inr by (auto simp: storeRole_def split: sum.splits prod.splits)
      note ds = deleteCachedToken_spec [OF d]
      show thesis
        using ps(2,4) Inr enc ds r3 by (intro that [of s2]) auto
    qed
  qed
  note drops = drops_tokens_contents [OF drop]
  have upd: "roleAt P view s1 n = Some ro"
    if "EncodeRole P ro = Inr b" "view (ext s1) = (view (ext s))(rolesStoragePrefix @ n \<mapsto> b)" for b
    using that role_roundtrip [OF assms(2)] by (simp add: roleAt_def)
  have others: "m \<noteq> n \<Longrightarrow> roleAt P view s1 m = roleAt P view s m"
    "configAt P view s1 = configAt P view s" "tokenAt P view s1 = tokenAt P view s" for m
    using v by (auto simp: roleAt_def configAt_def tokenAt_def fun_eq_iff prefix_defs)
  show "roleAt P view s' n = roleAt P view s n \<or> roleAt P view s' n = Some ro"
    using v upd drops(2) by (auto simp: roleAt_def)
  show "isOk r \<Longrightarrow> roleAt P view s' n = Some ro \<and> tokenAt P view s' n = None
      \<and> r = Inr (if UseIntrospection ro then Some IntrospectionWarning else None)"
    using v upd ok drops(2) by metis
  show "m \<noteq> n \<Longrightarrow> roleAt P view s' m = roleAt P view s m" "configAt P view s' = configAt P view s"
    using others drops(1,2) by simp_all
  show "tokenAt P view s' m = tokenAt P view s m \<or> tokenAt P view s' m = None \<and> m = n"
    using others(3) drops(3) [of P m] by simp
  show "rsaKeyCache s' = rsaKeyCache s" by (rule cache)
qed

text \<open>A role write ends before it stores anything, or it passed every check.\<close>

lemma pathRoleWrite_cases:
  assumes w: "pathRoleWrite P data s = (r, s')"
  obtains (refused) e where "same_store view s s'" "rsaKeyCache s' = rsaKeyCache s" "r = Inr (Some (ErrorResponse e))"
  | (failed) e where "same_store view s s'" "rsaKeyCache s' = rsaKeyCache s" "r = Inl e"
  | (stored) s1 cfg where "GetString data ''name'' \<noteq> []"
      "checkImmutable (roleAt P view s (GetString data ''name'')) (writtenRole P view data s) = None"
      "configAt P view s (Config (writtenRole P view data s)) = Some cfg"
      "checkRoleFields (writtenRole P view data s) = None"
      "checkGrantMaterial (writtenRole P view data s) cfg = None"
      "same_store view s s1" "rsaKeyCache s1 = rsaKeyCache s"
      "storeRole P (GetString data ''name'') (writtenRole P view data s) s1 = (r, s')"
proof -
  let ?n = "GetString data ''name''"
  let ?ro = "writtenRole P view data s"
  obtain oc s0 where g: "getRole P ?n s = (oc, s0)" by fastforce
  note gs = getRole_spec [OF g]
  show thesis
  proof (cases "?n = [] \<or> \<not> isOk oc")
    case True
    with w g gs refused failed show thesis
      by (cases oc) (auto simp: pathRoleWrite_def Let_def split: if_splits)
  next
    case False
    then have name: "?n \<noteq> []" and oc: "oc = Inr (roleAt P view s ?n)"
      using gs(4) by (auto simp: isOk_iff)
    have rest: "(case checkImmutable (roleAt P view s ?n) ?ro of
              Some e \<Rightarrow> (Inr (Some (ErrorResponse e)), s0)
            | None \<Rightarrow>
              (case validateRole P ?ro s0 of
                 (Some e, s) \<Rightarrow> (Inr (Some (ErrorResponse e)), s)
               | (None, s) \<Rightarrow> storeRole P ?n ?ro s)) = (r, s')"
      using w name g unfolding oc writtenRole_def by (simp add: pathRoleWrite_def Let_def)
    show thesis
    proof (cases "checkImmutable (roleAt P view s ?n) ?ro")
      case (Some e)
      with rest gs refused show thesis by auto
    next
      case None
      obtain e s2 where v: "validateRole P ?ro s0 = (e, s2)" by fastforce
      note vs = validateRole_spec [OF v, unfolded same_store_contents [OF gs(1)]]
      have same: "same_store view s s2" using gs(1) vs(1) by (rule same_store_trans)
      show thesis
        using rest None v vs(2,3) same gs(2) name refused stored [OF name None _ _ _ same]
        by (cases e) auto
    qed
  qed
qed

lemma pathRoleDelete_spec:
  assumes "pathRoleDelete P data s = (r, s')" and n: "n = GetString data ''name''"
  shows "m \<noteq> n \<Longrightarrow> roleAt P view s' m = roleAt P view s m"
    and "roleAt P view s' n \<in> {roleAt P view s n, None}"
    and "configAt P view s' = configAt P view s"
    and "tokenAt P view s' m = tokenAt P view s m \<or> tokenAt P view s' m = None \<and> m = n"
    and "isOk r \<Longrightarrow> r = Inr None \<and> roleAt P view s' n = None \<and> tokenAt P view s' n = None"
    and "rsaKeyCache s' = rsaKeyCache s"
proof -
  obtain r1 s1 where d: "deleteCachedToken P n s = (r1, s1)" by fastforce
  note ds = deleteCachedToken_spec [OF d]
  note drops = drops_tokens_contents [OF ds(1)]
  consider (stop) e where "r1 = Inl e" "r = Inl e" "s' = s1"
    | (del) u r2 where "r1 = Inr u" "st_Delete P (rolesStoragePrefix @ n) s1 = (r2, s')"
        "isOk r = isOk r2" "isOk r \<longrightarrow> r = Inr None"
    using assms d by (cases r1) (auto simp: pathRoleDelete_def Let_def split: prod.splits sum.splits)
  then have v: "(view (ext s') = view (ext s1) \<and> \<not> isOk r
      \<or> view (ext s') = (view (ext s1))(rolesStoragePrefix @ n := None) \<and> isOk r1)
    \<and> (isOk r \<longrightarrow> r = Inr None \<and> isOk r1) \<and> rsaKeyCache s' = rsaKeyCache s1"
    by cases (auto dest: st_Delete_spec)
  then have role: "roleAt P view s' = roleAt P view s1 \<and> \<not> isOk r
      \<or> roleAt P view s' = (roleAt P view s1)(n := None)"
    and config: "configAt P view s' = configAt P view s1" and token: "tokenAt P view s' = tokenAt P view s1"
    by (auto simp: configAt_def roleAt_def tokenAt_def fun_eq_iff prefix_defs)
  show "m \<noteq> n \<Longrightarrow> roleAt P view s' m = roleAt P view s m"
    "roleAt P view s' n \<in> {roleAt P view s n, None}"
    "isOk r \<Longrightarrow> r = Inr None \<and> roleAt P view s' n = None \<and> tokenAt P view s' n = None"
    using role drops(2) v token ds(4) by (auto split: if_splits)
  show "configAt P view s' = configAt P view s"
    "tokenAt P view s' m = tokenAt P view s m \<or> tokenAt P view s' m = None \<and> m = n"
    "rsaKeyCache s' = rsaKeyCache s"
    using config token drops ds(2) v by auto
qed

lemma pathRoleRead_spec:
  assumes "pathRoleRead P data s = (r, s')"
  shows "same_store view s s'" "rsaKeyCache s' = rsaKeyCache s"
    and "r = Inr res \<Longrightarrow> res = map_option (\<lambda>ro. DataResponse (roleMap ro)) (roleAt P view s (GetString data ''name''))"
proof -
  obtain oc s0 where g: "getRole P (GetString data ''name'') s = (oc, s0)" by fastforce
  note gs = getRole_spec [OF g]
  have "s' = s0" using assms g by (auto simp: pathRoleRead_def split: sum.splits option.splits)
  then show "same_store view s s'" "rsaKeyCache s' = rsaKeyCache s" using gs by simp_all
  show "r = Inr res \<Longrightarrow> res = map_option (\<lambda>ro. DataResponse (roleMap ro)) (roleAt P view s (GetString data ''name''))"
    using assms g gs(4) by (auto simp: pathRoleRead_def split: sum.splits option.splits)
qed

lemma roles_ok_same: "roles_ok P view s \<Longrightarrow> roleAt P view s' = roleAt P view s \<Longrightarrow> roles_ok P view s'"
  by (simp add: roles_ok_def)

lemma pathRoleWrite_roles_ok:
  assumes "pathRoleWrite P data s = (r, s')" "data_text data" "roles_ok P view s"
  shows "roles_ok P view s'"
  using assms(1)
proof (cases rule: pathRoleWrite_cases)
  case (stored s1 cfg)
  note spec = storeRole_spec [OF stored(8) writtenRole_text [OF assms(2)], unfolded same_store_contents [OF stored(6)]]
  have "role_ok (writtenRole P view data s)"
    using stored(4,5) by (auto simp: role_ok_def checkGrantMaterial_def split: if_splits)
  then show ?thesis
    using assms(3) spec(1,3) unfolding roles_ok_def by (metis option.inject)
qed (use assms(3) roles_ok_same same_store_contents(2) in metis)+

lemma pathRoleDelete_roles_ok:
  assumes "pathRoleDelete P data s = (r, s')" "roles_ok P view s"
  shows "roles_ok P view s'"
  using pathRoleDelete_spec(1,2) [OF assms(1) refl] assms(2)
  unfolding roles_ok_def by (metis empty_iff insertE option.distinct(1))

end

end
