(* ===== verification/Jwt.thy ===== *)
theory Jwt
  imports Roles
begin

text \<open>
  \<^verbatim>\<open>jwt.go\<close>: the signed assertion of the JWT Bearer flow and the memo table of parsed RSA keys.
  Parsing a PEM key and RS256 signing are the platform's (the JWT library).
\<close>

definition parseRSAPrivateKey :: "('w, 'b, 'k) platform \<Rightarrow> string \<Rightarrow> ('w, 'k, 'k) op" where
  "parseRSAPrivateKey P pemKey s =
     (if TrimSpace_empty pemKey then (Inl NoPrivateKeyConfigured, s)
      else case rsaKeyCache s pemKey of
          Some key \<Rightarrow> (Inr key, s)
        | None \<Rightarrow>
            (case ParseRSAPrivateKeyFromPEM P pemKey of
               Inl err \<Rightarrow> (Inl (ParsingRSAPrivateKey err), s)
             | Inr key \<Rightarrow> (Inr key, s\<lparr>rsaKeyCache := (rsaKeyCache s)(pemKey \<mapsto> key)\<rparr>)))"

text \<open>The claims: issuer, subject, audience and the expiry window.\<close>

definition jwtClaims :: "salesforceConfig \<Rightarrow> salesforceRole \<Rightarrow> Time \<Rightarrow> jwt_claims" where
  "jwtClaims cfg role t =
     (let audience = (if Audience role = [] then TrimRight (LoginURL cfg) ''/'' else Audience role);
          expiry = (if JWTExpiry role \<le> 0 then 3 * time_Minute else JWTExpiry role)
      in \<lparr>iss = ClientID cfg, sub = Username role, aud = audience,
          exp_claim = Time_Unix (Time_Add t expiry)\<rparr>)"

definition buildJWTAssertion ::
  "('w, 'b, 'k) platform \<Rightarrow> salesforceConfig \<Rightarrow> salesforceRole \<Rightarrow> Time \<Rightarrow> ('w, 'k, string) op" where
  "buildJWTAssertion P cfg role t s = (case parseRSAPrivateKey P (PrivateKey cfg) s of
      (Inl err, s) \<Rightarrow> (Inl err, s)
    | (Inr key, s) \<Rightarrow>
        (case SignedString P key (jwtClaims cfg role t) of
           Inl err \<Rightarrow> (Inl (SigningAssertion err), s)
         | Inr jws \<Rightarrow> (Inr jws, s)))"

section \<open>The memo table is transparent\<close>

text \<open>Parsing without the table.\<close>

definition parseRSADirect :: "('w, 'b, 'k) platform \<Rightarrow> string \<Rightarrow> gerror + 'k" where
  "parseRSADirect P pemKey =
     (if TrimSpace_empty pemKey then Inl NoPrivateKeyConfigured
      else case ParseRSAPrivateKeyFromPEM P pemKey of
          Inl err \<Rightarrow> Inl (ParsingRSAPrivateKey err)
        | Inr key \<Rightarrow> Inr key)"

definition key_cache_ok :: "('w, 'b, 'k) platform \<Rightarrow> ('w, 'k) engine \<Rightarrow> bool" where
  "key_cache_ok P s \<longleftrightarrow> (\<forall>pem key. rsaKeyCache s pem = Some key \<longrightarrow> ParseRSAPrivateKeyFromPEM P pem = Inr key)"

lemma key_cache_ok_same: "key_cache_ok P s \<Longrightarrow> rsaKeyCache s' = rsaKeyCache s \<Longrightarrow> key_cache_ok P s'"
  by (simp add: key_cache_ok_def)

lemma parseRSAPrivateKey_frame:
  "parseRSAPrivateKey P pem s = (r, s') \<Longrightarrow> ext s' = ext s \<and> logs s' = logs s"
  by (auto simp: parseRSAPrivateKey_def split: if_splits option.splits sum.splits)

lemma parseRSAPrivateKey_direct:
  assumes "key_cache_ok P s" "parseRSAPrivateKey P pem s = (r, s')"
  shows "r = parseRSADirect P pem" "key_cache_ok P s'"
  using assms
  by (auto simp: parseRSAPrivateKey_def parseRSADirect_def key_cache_ok_def
      split: if_splits option.splits sum.splits)

lemma buildJWTAssertion_frame:
  assumes "buildJWTAssertion P cfg role t s = (r, s')"
  shows "ext s' = ext s \<and> logs s' = logs s"
  using assms parseRSAPrivateKey_frame
  by (fastforce simp: buildJWTAssertion_def split: prod.splits sum.splits)

lemma buildJWTAssertion_direct:
  assumes "key_cache_ok P s" "buildJWTAssertion P cfg role t s = (r, s')"
  shows "r = (case parseRSADirect P (PrivateKey cfg) of
      Inl err \<Rightarrow> Inl err
    | Inr key \<Rightarrow> (case SignedString P key (jwtClaims cfg role t) of
        Inl err \<Rightarrow> Inl (SigningAssertion err) | Inr jws \<Rightarrow> Inr jws))"
    and "key_cache_ok P s'"
proof -
  obtain k s1 where p: "parseRSAPrivateKey P (PrivateKey cfg) s = (k, s1)" by fastforce
  note ps = parseRSAPrivateKey_direct [OF assms(1) p]
  have s': "s' = s1" using assms(2) p by (auto simp: buildJWTAssertion_def split: sum.splits)
  then show "key_cache_ok P s'" using ps(2) by simp
  show "r = (case parseRSADirect P (PrivateKey cfg) of
      Inl err \<Rightarrow> Inl err
    | Inr key \<Rightarrow> (case SignedString P key (jwtClaims cfg role t) of
        Inl err \<Rightarrow> Inl (SigningAssertion err) | Inr jws \<Rightarrow> Inr jws))"
    using assms(2) p ps(1) by (auto simp: buildJWTAssertion_def split: sum.splits)
qed

section \<open>The expiry window\<close>

lemma jwtClaims_window:
  assumes "role_ok role" "JWTExpiry role \<le> 0 \<or> time_Second \<le> JWTExpiry role"
  shows "Time_Unix t < exp_claim (jwtClaims cfg role t)"
    and "exp_claim (jwtClaims cfg role t) \<le> Time_Unix t + 300"
proof -
  let ?d = "if JWTExpiry role \<le> 0 then 3 * time_Minute else JWTExpiry role"
  have d: "time_Second \<le> ?d" "?d \<le> 300 * time_Second"
    using assms by (auto simp: role_ok_iff time_Minute_def time_Second_def)
  have "(t + time_Second) div time_Second \<le> (t + ?d) div time_Second"
    "(t + ?d) div time_Second \<le> (t + 300 * time_Second) div time_Second"
    using d by (intro zdiv_mono1; simp add: time_Second_def)+
  then show "Time_Unix t < exp_claim (jwtClaims cfg role t)"
    "exp_claim (jwtClaims cfg role t) \<le> Time_Unix t + 300"
    by (simp_all add: jwtClaims_def Let_def go_defs time_Second_def)
qed

end
