(* ===== verification/Observe.thy ===== *)
theory Observe
  imports Store
begin

text \<open>
  What the outside sees of a run: the HTTP exchanges, the waits between attempts, the lock
  operations, in the order they happen, and the clock. The locale \<open>observed\<close> extends the
  contract \<open>barrier\<close> with a ghost history of these events; it carries the ordering
  properties (what is sent, how often, under which lock) and the bounds on time.
\<close>

datatype event =
    Sent http_client http_request "gerror + http_response"
  | Waited Duration
  | Locked nat
  | Unlocked nat

text \<open>An error of the environment is never one the plugin made from a token response.\<close>

definition foreign :: "gerror \<Rightarrow> bool" where
  "foreign e \<longleftrightarrow> as_salesforceError e = None"

fun foreign_reply :: "gerror + http_response \<Rightarrow> bool" where
  "foreign_reply (Inl e) = foreign e"
| "foreign_reply (Inr resp) = (case ResponseBody resp of Inl e \<Rightarrow> foreign e | Inr _ \<Rightarrow> True)"

text \<open>
  \<open>trace w\<close> is what happened up to world \<open>w\<close> on behalf of the running request, \<open>clk w\<close> the
  time. From \<open>w\<close> to \<open>w'\<close> a step \<open>adds\<close> events to the history, possibly none, and time may pass.
\<close>

definition adds :: "('w \<Rightarrow> event list) \<Rightarrow> ('w \<Rightarrow> Time) \<Rightarrow> event list \<Rightarrow> 'w \<Rightarrow> 'w \<Rightarrow> bool" where
  "adds trace clk evs w w' \<longleftrightarrow> trace w' = trace w @ evs \<and> clk w \<le> clk w'"

lemma adds_refl [simp]: "adds trace clk [] w w"
  by (simp add: adds_def)

lemma adds_trans:
  "adds trace clk xs w w1 \<Longrightarrow> adds trace clk ys w1 w2 \<Longrightarrow> adds trace clk (xs @ ys) w w2"
  by (auto simp: adds_def)

text \<open>The same on the states of the plugin.\<close>

definition added ::
  "('w \<Rightarrow> event list) \<Rightarrow> ('w \<Rightarrow> Time) \<Rightarrow> event list \<Rightarrow> ('w, 'k) engine \<Rightarrow> ('w, 'k) engine \<Rightarrow> bool" where
  "added trace clk evs s s' \<longleftrightarrow> adds trace clk evs (ext s) (ext s')"

lemma added_refl [simp]: "added trace clk [] s s"
  by (simp add: added_def)

lemma added_log [simp]: "added trace clk evs s (log e s') = added trace clk evs s s'"
  by (simp add: added_def log_def)

lemma added_trans: "added trace clk xs s s1 \<Longrightarrow> added trace clk ys s1 s2 \<Longrightarrow> added trace clk (xs @ ys) s s2"
  unfolding added_def by (rule adds_trans)

lemma added_quiet_left: "added trace clk [] s s1 \<Longrightarrow> added trace clk ys s1 s2 \<Longrightarrow> added trace clk ys s s2"
  using added_trans by fastforce

lemma added_quiet_right: "added trace clk ys s s1 \<Longrightarrow> added trace clk [] s1 s2 \<Longrightarrow> added trace clk ys s s2"
  using added_trans by fastforce

lemma added_clock: "added trace clk evs s s' \<Longrightarrow> clk (ext s) \<le> clk (ext s')"
  by (simp add: added_def adds_def)

locale observed = barrier P view
  for P :: "('w, 'b, 'k) platform" and view :: "'w \<Rightarrow> (string \<rightharpoonup> 'b)" +
  fixes trace :: "'w \<Rightarrow> event list" and clk :: "'w \<Rightarrow> Time"
  assumes get_quiet: "Storage_Get P k w = (rg, w') \<Longrightarrow> adds trace clk [] w w'"
    and put_quiet: "Storage_Put P k b w = (rp, w') \<Longrightarrow> adds trace clk [] w w'"
    and delete_quiet: "Storage_Delete P k w = (rp, w') \<Longrightarrow> adds trace clk [] w w'"
    and list_quiet: "Storage_List P k w = (rl, w') \<Longrightarrow> adds trace clk [] w w'"
    and now_quiet: "Time_Now P w = (tm, w') \<Longrightarrow> adds trace clk [] w w' \<and> clk w \<le> tm \<and> tm \<le> clk w'"
    and ctx_quiet: "Ctx_Err P w = (oe, w') \<Longrightarrow> adds trace clk [] w w'"
    and wait_adds: "Wait_After P d w = (oe, w') \<Longrightarrow> adds trace clk [Waited d] w w'"
    and rand_quiet: "Rand_Int63n P i w = (j, w') \<Longrightarrow> adds trace clk [] w w'"
    and rand_range: "Rand_Int63n P i w = (j, w') \<Longrightarrow> 0 < i \<Longrightarrow> 0 \<le> j \<and> j < i"
    and http_adds: "Http_Do P cl rq w = (hr, w') \<Longrightarrow> adds trace clk [Sent cl rq hr] w w'"
    and trylock_adds: "TryLock P ix w = (got, w') \<Longrightarrow> adds trace clk (if got then [Locked ix] else []) w w'"
    and lock_adds: "adds trace clk [Locked ix] w (Lock P ix w)"
    and unlock_adds: "adds trace clk [Unlocked ix] w (Unlock P ix w)"
    and http_foreign: "Http_Do P cl rq w = (hr, w') \<Longrightarrow> foreign_reply hr"
    and wait_foreign: "Wait_After P d w = (Some e, w') \<Longrightarrow> foreign e"
    and get_foreign: "Storage_Get P k w = (Inl e, w') \<Longrightarrow> foreign e"
    and delete_foreign: "Storage_Delete P k w = (Inl e, w') \<Longrightarrow> foreign e"
    and decode_foreign: "DecodeToken P b = Inl e \<Longrightarrow> foreign e"
    and put_foreign: "Storage_Put P k b w = (Inl e, w') \<Longrightarrow> foreign e"
    and encode_foreign: "EncodeToken P t = Inl e \<Longrightarrow> foreign e"
    and key_foreign: "ParseRSAPrivateKeyFromPEM P pem = Inl e \<Longrightarrow> foreign e"
    and sign_foreign: "SignedString P key cs = Inl e \<Longrightarrow> foreign e"
begin

lemma st_Get_quiet: "st_Get P k s = (r, s') \<Longrightarrow> added trace clk [] s s'"
  using get_quiet by (fastforce simp: st_Get_def added_def split: prod.splits)

lemma st_Put_quiet: "st_Put P k b s = (r, s') \<Longrightarrow> added trace clk [] s s'"
  using put_quiet by (fastforce simp: st_Put_def added_def split: prod.splits)

lemma st_Delete_quiet: "st_Delete P k s = (r, s') \<Longrightarrow> added trace clk [] s s'"
  using delete_quiet by (fastforce simp: st_Delete_def added_def split: prod.splits)

lemma now_quiet_s:
  assumes "now P s = (t, s')"
  shows "added trace clk [] s s'" "clk (ext s) \<le> t" "t \<le> clk (ext s')"
  using assms now_quiet by (fastforce simp: now_def added_def split: prod.splits)+

lemma getConfig_quiet: "getConfig P n s = (r, s') \<Longrightarrow> added trace clk [] s s'"
  using st_Get_quiet by (fastforce simp: getConfig_def split: prod.splits sum.splits option.splits)

lemma getRole_quiet: "getRole P n s = (r, s') \<Longrightarrow> added trace clk [] s s'"
  using st_Get_quiet by (fastforce simp: getRole_def split: prod.splits sum.splits option.splits)

lemma getCachedToken_quiet: "getCachedToken P n s = (r, s') \<Longrightarrow> added trace clk [] s s'"
  using st_Get_quiet by (fastforce simp: getCachedToken_def split: prod.splits sum.splits option.splits)

lemma putCachedToken_quiet: "putCachedToken P n t s = (r, s') \<Longrightarrow> added trace clk [] s s'"
  using st_Put_quiet by (fastforce simp: putCachedToken_def split: sum.splits)

lemma putCachedToken_foreign: "putCachedToken P n t s = (Inl e, s') \<Longrightarrow> foreign e"
  using put_foreign encode_foreign
  by (fastforce simp: putCachedToken_def st_Put_def split: sum.splits prod.splits)

lemma getCachedToken_foreign: "getCachedToken P n s = (Inl e, s') \<Longrightarrow> foreign e"
  using get_foreign decode_foreign
  by (fastforce simp: getCachedToken_def st_Get_def split: sum.splits prod.splits option.splits)

lemma deleteCachedToken_foreign: "deleteCachedToken P n s = (Inl e, s') \<Longrightarrow> foreign e"
  using delete_foreign by (fastforce simp: deleteCachedToken_def st_Delete_def split: prod.splits)

lemma deleteCachedToken_quiet: "deleteCachedToken P n s = (r, s') \<Longrightarrow> added trace clk [] s s'"
  unfolding deleteCachedToken_def by (rule st_Delete_quiet)

end

end
