(* ===== verification/Client.thy ===== *)
theory Client
  imports Jwt Observe
begin

text \<open>
  \<^verbatim>\<open>client.go\<close>: the requests to the token and revocation endpoints. The HTTP round trip, the
  wait between attempts, the random jitter and the state of the request context are the
  platform's.
\<close>

definition jwtBearerGrantType :: string where
  "jwtBearerGrantType = ''urn:ietf:params:oauth:grant-type:jwt-bearer''"

definition httpClientFor :: "('w, 'b, 'k) platform \<Rightarrow> salesforceConfig \<Rightarrow> gerror + http_client" where
  "httpClientFor P cfg =
     (if CACert cfg \<noteq> [] \<and> \<not> AppendCertsFromPEM P (CACert cfg) then Inl InvalidCACert
      else Inr \<lparr>InsecureSkipVerify = TLSSkipVerify cfg, MinVersionTLS12 = True,
        RootCAs = (if CACert cfg \<noteq> [] then Some (CACert cfg) else None),
        ClientTimeout = 30 * time_Second\<rparr>)"

text \<open>\<^verbatim>\<open>http.NewRequestWithContext\<close> fails on a URL that does not parse.\<close>

definition newPost :: "string \<Rightarrow> form \<Rightarrow> (string \<times> string) list \<Rightarrow> gerror + http_request" where
  "newPost rawURL f hdr = (case url_Parse rawURL of
      Inl e \<Rightarrow> Inl (UrlError e)
    | Inr _ \<Rightarrow> Inr \<lparr>Method = ''POST'', RequestURL = rawURL, Header = hdr, Body = Values_Encode f\<rparr>)"

definition do_http ::
  "('w, 'b, 'k) platform \<Rightarrow> http_client \<Rightarrow> http_request \<Rightarrow> ('w, 'k, http_response) op" where
  "do_http P client rq s = (case Http_Do P client rq (ext s) of (r, w) \<Rightarrow> (r, s\<lparr>ext := w\<rparr>))"

definition ctx_Err :: "('w, 'b, 'k) platform \<Rightarrow> ('w, 'k) engine \<Rightarrow> gerror option \<times> ('w, 'k) engine" where
  "ctx_Err P s = (case Ctx_Err P (ext s) of (e, w) \<Rightarrow> (e, s\<lparr>ext := w\<rparr>))"

section \<open>Errors of the token endpoint\<close>

definition isRetryableStatus :: "int \<Rightarrow> bool" where
  "isRetryableStatus status \<longleftrightarrow> status = 429 \<or> status \<ge> 500"

definition isTransientMintError :: "gerror \<Rightarrow> bool" where
  "isTransientMintError err = (case as_salesforceError err of
      Some sfErr \<Rightarrow> isRetryableStatus (StatusCode sfErr)
    | None \<Rightarrow> True)"

definition store_error_field :: "string \<Rightarrow> json \<Rightarrow> salesforceError \<Rightarrow> salesforceError \<times> bool" where
  "store_error_field k j e =
     (if k = foldName ''error'' then
        (case store_string j (Code e) of (v, bad) \<Rightarrow> (e\<lparr>Code := v\<rparr>, bad))
      else if k = foldName ''error_description'' then
        (case store_string j (Description e) of (v, bad) \<Rightarrow> (e\<lparr>Description := v\<rparr>, bad))
      else (e, False))"

definition parseTokenError :: "int \<Rightarrow> string \<Rightarrow> gerror" where
  "parseTokenError status body =
     (let sfErr = \<lparr>StatusCode = status, Code = [], Description = []\<rparr>
      in case Unmarshal store_error_field sfErr body of
          Some e \<Rightarrow> OAuthError e
        | None \<Rightarrow> OAuthError sfErr)"

section \<open>One token request\<close>

definition zeroTokenResult :: tokenResult where
  "zeroTokenResult = \<lparr>AccessToken = [], InstanceURL = [], TokenType = [], Scope = [], ExpiresIn = 0\<rparr>"

definition store_token_field :: "string \<Rightarrow> json \<Rightarrow> tokenResult \<Rightarrow> tokenResult \<times> bool" where
  "store_token_field k j t =
     (if k = foldName ''access_token'' then
        (case store_string j (AccessToken t) of (v, bad) \<Rightarrow> (t\<lparr>AccessToken := v\<rparr>, bad))
      else if k = foldName ''instance_url'' then
        (case store_string j (InstanceURL t) of (v, bad) \<Rightarrow> (t\<lparr>InstanceURL := v\<rparr>, bad))
      else if k = foldName ''token_type'' then
        (case store_string j (TokenType t) of (v, bad) \<Rightarrow> (t\<lparr>TokenType := v\<rparr>, bad))
      else if k = foldName ''scope'' then
        (case store_string j (Scope t) of (v, bad) \<Rightarrow> (t\<lparr>Scope := v\<rparr>, bad))
      else if k = foldName ''expires_in'' then
        (case store_int j (ExpiresIn t) of (v, bad) \<Rightarrow> (t\<lparr>ExpiresIn := v\<rparr>, bad))
      else (t, False))"

definition result_text :: "tokenResult \<Rightarrow> bool" where
  "result_text t = list_all ValidString [AccessToken t, InstanceURL t, TokenType t, Scope t]"

definition max_body :: nat where
  "max_body = 1048576"

text \<open>
  The reading of a response. An error carries whether it is retryable; \<^verbatim>\<open>io.LimitReader\<close> cuts
  the body off at 1 MiB.
\<close>

definition readTokenResponse :: "http_response \<Rightarrow> (gerror \<times> bool) + tokenResult" where
  "readTokenResponse resp = (case ResponseBody resp of
      Inl err \<Rightarrow> Inl (ReadingTokenResponse err, True)
    | Inr full \<Rightarrow>
      (let body = take max_body full
       in if Status resp \<noteq> 200 then
            Inl (parseTokenError (Status resp) body, isRetryableStatus (Status resp))
          else case Unmarshal store_token_field zeroTokenResult body of
              None \<Rightarrow> Inl (DecodingTokenResponse, False)
            | Some parsed \<Rightarrow>
                if AccessToken parsed = [] then Inl (NoAccessToken, False) else Inr parsed))"

definition tokenHeaders :: "(string \<times> string) list" where
  "tokenHeaders = [(''Content-Type'', ''application/x-www-form-urlencoded''), (''Accept'', ''application/json'')]"

definition doTokenRequestOnce ::
  "('w, 'b, 'k) platform \<Rightarrow> http_client \<Rightarrow> salesforceConfig \<Rightarrow> form \<Rightarrow> ('w, 'k) engine \<Rightarrow>
     ((gerror \<times> bool) + tokenResult) \<times> ('w, 'k) engine" where
  "doTokenRequestOnce P client cfg f s = (case newPost (tokenURL cfg) f tokenHeaders of
      Inl err \<Rightarrow> (Inl (err, False), s)
    | Inr rq \<Rightarrow>
      (case do_http P client rq s of
         (Inl err, s) \<Rightarrow>
           (case ctx_Err P s of
              (Some _, s) \<Rightarrow> (Inl (TokenRequestFailed err, False), s)
            | (None, s) \<Rightarrow> (Inl (TokenRequestFailed err, True), s))
       | (Inr resp, s) \<Rightarrow> (readTokenResponse resp, s)))"

section \<open>The retry loop\<close>

definition tokenRetryMaxAttempts :: nat where
  "tokenRetryMaxAttempts = 3"

definition tokenRetryBaseBackoff :: Duration where
  "tokenRetryBaseBackoff = 200 * time_Millisecond"

definition tokenBackoff :: "nat \<Rightarrow> Duration" where
  "tokenBackoff attempt = wrap64 (tokenRetryBaseBackoff * 2 ^ (attempt - 1))"

text \<open>The wait before attempt \<open>attempt > 0\<close>: the backoff plus jitter, or the end of the context.\<close>

definition waitBackoff ::
  "('w, 'b, 'k) platform \<Rightarrow> nat \<Rightarrow> ('w, 'k) engine \<Rightarrow> gerror option \<times> ('w, 'k) engine" where
  "waitBackoff P attempt s =
     (case Rand_Int63n P (tokenBackoff attempt div 2 + 1) (ext s) of (jitter, w) \<Rightarrow>
      case Wait_After P (wrap64 (tokenBackoff attempt + jitter)) w of (done, w) \<Rightarrow> (done, s\<lparr>ext := w\<rparr>))"

definition beforeAttempt ::
  "('w, 'b, 'k) platform \<Rightarrow> nat \<Rightarrow> ('w, 'k) engine \<Rightarrow> gerror option \<times> ('w, 'k) engine" where
  "beforeAttempt P attempt s = (if attempt > 0 then waitBackoff P attempt s else (None, s))"

text \<open>
  The attempts \<open>attempt\<close>, \<open>attempt + 1\<close>, \<dots> of which \<open>remaining\<close> are left after the first. With
  the constant \<open>tokenRetryMaxAttempts\<close> the loop of the code always makes its first attempt.
\<close>

fun tokenAttempts ::
  "('w, 'b, 'k) platform \<Rightarrow> http_client \<Rightarrow> salesforceConfig \<Rightarrow> form \<Rightarrow> nat \<Rightarrow> nat \<Rightarrow> ('w, 'k, tokenResult) op" where
  "tokenAttempts P client cfg f attempt remaining s =
     (case beforeAttempt P attempt s of
        (Some e, s) \<Rightarrow> (Inl e, s)
      | (None, s) \<Rightarrow>
        (case doTokenRequestOnce P client cfg f s of
           (Inr res, s) \<Rightarrow> (Inr res, s)
         | (Inl (err, retryable), s) \<Rightarrow>
             if \<not> retryable then (Inl err, s)
             else (case remaining of
                 0 \<Rightarrow> (Inl err, s)
               | Suc n \<Rightarrow> tokenAttempts P client cfg f (Suc attempt) n s)))"

declare tokenAttempts.simps [simp del]

definition doTokenRequest ::
  "('w, 'b, 'k) platform \<Rightarrow> salesforceConfig \<Rightarrow> form \<Rightarrow> ('w, 'k, tokenResult) op" where
  "doTokenRequest P cfg f s = (case httpClientFor P cfg of
      Inl err \<Rightarrow> (Inl err, s)
    | Inr client \<Rightarrow> tokenAttempts P client cfg f 0 (tokenRetryMaxAttempts - 1) s)"

section \<open>The grant flows\<close>

definition clientCredentialsForm :: "salesforceConfig \<Rightarrow> form" where
  "clientCredentialsForm cfg =
     [(''grant_type'', grantClientCredential),
      (''client_id'', ClientID cfg),
      (''client_secret'', ClientSecret cfg)]"

definition jwtBearerForm :: "string \<Rightarrow> form" where
  "jwtBearerForm assertion = [(''grant_type'', jwtBearerGrantType), (''assertion'', assertion)]"

definition requestClientCredentialsToken ::
  "('w, 'b, 'k) platform \<Rightarrow> salesforceConfig \<Rightarrow> ('w, 'k, tokenResult) op" where
  "requestClientCredentialsToken P cfg s = doTokenRequest P cfg (clientCredentialsForm cfg) s"

definition requestJWTBearerToken ::
  "('w, 'b, 'k) platform \<Rightarrow> salesforceConfig \<Rightarrow> salesforceRole \<Rightarrow> ('w, 'k, tokenResult) op" where
  "requestJWTBearerToken P cfg role s = (case now P s of (t, s) \<Rightarrow>
     (case buildJWTAssertion P cfg role t s of
        (Inl err, s) \<Rightarrow> (Inl err, s)
      | (Inr assertion, s) \<Rightarrow> doTokenRequest P cfg (jwtBearerForm assertion) s))"

section \<open>Revocation\<close>

definition revokeHeaders :: "(string \<times> string) list" where
  "revokeHeaders = [(''Content-Type'', ''application/x-www-form-urlencoded'')]"

definition revokeToken ::
  "('w, 'b, 'k) platform \<Rightarrow> salesforceConfig \<Rightarrow> string \<Rightarrow> ('w, 'k, unit) op" where
  "revokeToken P cfg accessToken s =
     (if accessToken = [] then (Inr (), s)
      else case httpClientFor P cfg of
          Inl err \<Rightarrow> (Inl err, s)
        | Inr client \<Rightarrow>
          (case newPost (revokeURL cfg) [(''token'', accessToken)] revokeHeaders of
             Inl err \<Rightarrow> (Inl err, s)
           | Inr rq \<Rightarrow>
             (case do_http P client rq s of
                (Inl err, s) \<Rightarrow> (Inl (RevokeRequestFailed err), s)
              | (Inr resp, s) \<Rightarrow>
                  if Status resp \<noteq> 200 then (Inl (RevokeStatus (Status resp)), s) else (Inr (), s))))"

section \<open>The storage and the key table\<close>

lemma zeroTokenResult_text: "result_text zeroTokenResult"
  by (simp add: result_text_def zeroTokenResult_def)

lemma store_string_text:
  "json_text v \<Longrightarrow> ValidString old \<Longrightarrow> ValidString (fst (store_string v old))"
  by (cases v) (simp_all add: store_string_def)

lemma store_token_field_text:
  "json_text v \<Longrightarrow> result_text t \<Longrightarrow> result_text (fst (store_token_field k v t))"
  by (simp add: store_token_field_def result_text_def case_prod_unfold store_string_text del: foldName.simps)

lemma readTokenResponse_text: "readTokenResponse resp = Inr t \<Longrightarrow> result_text t \<and> AccessToken t \<noteq> []"
  using Unmarshal_keeps [of result_text store_token_field zeroTokenResult, OF store_token_field_text zeroTokenResult_text]
  by (auto simp: readTokenResponse_def Let_def split: sum.splits option.splits if_splits)

text \<open>The outcome of one exchange: a result, or an error and whether it is retried.\<close>

fun reply_outcome :: "gerror + http_response \<Rightarrow> (gerror \<times> bool) + tokenResult" where
  "reply_outcome (Inl err) = Inl (TokenRequestFailed err, True)"
| "reply_outcome (Inr resp) = readTokenResponse resp"

text \<open>One turn of the retry loop.\<close>

lemma tokenAttempts_cases:
  assumes "tokenAttempts P cl cfg f a k s = (r, s')"
  obtains (cancelled) e where "beforeAttempt P a s = (Some e, s')" "r = Inl e"
  | (success) s1 res where "beforeAttempt P a s = (None, s1)"
      "doTokenRequestOnce P cl cfg f s1 = (Inr res, s')" "r = Inr res"
  | (stopped) s1 e b where "beforeAttempt P a s = (None, s1)"
      "doTokenRequestOnce P cl cfg f s1 = (Inl (e, b), s')" "b \<longrightarrow> k = 0" "r = Inl e"
  | (again) s1 e s2 k' where "beforeAttempt P a s = (None, s1)"
      "doTokenRequestOnce P cl cfg f s1 = (Inl (e, True), s2)" "k = Suc k'"
      "tokenAttempts P cl cfg f (Suc a) k' s2 = (r, s')"
proof -
  obtain w s1 where w: "beforeAttempt P a s = (w, s1)" by fastforce
  obtain out s2 where d: "doTokenRequestOnce P cl cfg f s1 = (out, s2)" by fastforce
  show thesis
    using assms w d that
    by (subst (asm) tokenAttempts.simps)
      (auto split: option.splits sum.splits nat.splits if_splits)
qed

context barrier
begin

lemma do_http_frame: "do_http P cl rq s = (r, s') \<Longrightarrow> same_store view s s' \<and> rsaKeyCache s' = rsaKeyCache s"
  using http_frame by (fastforce simp: do_http_def same_store_def split: prod.splits)

lemma ctx_Err_frame: "ctx_Err P s = (r, s') \<Longrightarrow> same_store view s s' \<and> rsaKeyCache s' = rsaKeyCache s"
  using ctx_frame by (fastforce simp: ctx_Err_def same_store_def split: prod.splits)

lemma waitBackoff_frame: "waitBackoff P a s = (r, s') \<Longrightarrow> same_store view s s' \<and> rsaKeyCache s' = rsaKeyCache s"
  using wait_frame rand_frame by (fastforce simp: waitBackoff_def same_store_def split: prod.splits)

lemma backoff_frame:
  "beforeAttempt P a s = (r, s') \<Longrightarrow> same_store view s s' \<and> rsaKeyCache s' = rsaKeyCache s"
  by (auto simp: beforeAttempt_def dest: waitBackoff_frame split: if_splits)

lemma doTokenRequestOnce_frame:
  assumes "doTokenRequestOnce P cl cfg f s = (r, s')"
  shows "same_store view s s' \<and> rsaKeyCache s' = rsaKeyCache s"
proof (cases "newPost (tokenURL cfg) f tokenHeaders")
  case (Inr rq)
  obtain r1 s1 where h: "do_http P cl rq s = (r1, s1)" by fastforce
  obtain e s2 where c: "ctx_Err P s1 = (e, s2)" by fastforce
  have "s' = s1 \<or> s' = s2"
    using assms Inr h c by (auto simp: doTokenRequestOnce_def split: sum.splits option.splits)
  then show ?thesis using do_http_frame [OF h] ctx_Err_frame [OF c] same_store_trans by metis
qed (use assms in \<open>simp add: doTokenRequestOnce_def\<close>)

lemma tokenAttempts_frame:
  "tokenAttempts P cl cfg f a k s = (r, s') \<Longrightarrow> same_store view s s' \<and> rsaKeyCache s' = rsaKeyCache s"
proof (induction k arbitrary: a s)
  case 0
  from 0 show ?case
    by (cases rule: tokenAttempts_cases)
      (auto dest!: waitBackoff_frame backoff_frame doTokenRequestOnce_frame intro: same_store_trans)
next
  case (Suc k)
  from Suc(2) show ?case
    by (cases rule: tokenAttempts_cases)
      (auto dest!: waitBackoff_frame backoff_frame doTokenRequestOnce_frame Suc(1) intro: same_store_trans)
qed

lemma revokeToken_frame:
  assumes "revokeToken P cfg tok s = (r, s')"
  shows "same_store view s s' \<and> rsaKeyCache s' = rsaKeyCache s"
proof -
  have "s' = s \<or> (\<exists>cl rq rep. do_http P cl rq s = (rep, s'))"
    using assms by (auto simp: revokeToken_def split: if_splits sum.splits prod.splits)
  then show ?thesis using do_http_frame by auto
qed

lemma doTokenRequest_frame:
  "doTokenRequest P cfg f s = (r, s') \<Longrightarrow> same_store view s s' \<and> rsaKeyCache s' = rsaKeyCache s"
  by (auto simp: doTokenRequest_def dest: tokenAttempts_frame split: sum.splits)

end

section \<open>Classification of failures\<close>

lemma parseTokenError_status: "\<exists>e. parseTokenError status body = OAuthError e \<and> StatusCode e = status"
proof -
  have "StatusCode e = status"
    if "Unmarshal store_error_field \<lparr>StatusCode = status, Code = [], Description = []\<rparr> body = Some e" for e
    using that
    by (rule Unmarshal_keeps [where Q = "\<lambda>e. StatusCode e = status", rotated 2])
      (auto simp: store_error_field_def simp del: foldName.simps split: prod.splits)
  then show ?thesis by (auto simp: parseTokenError_def Let_def split: option.splits)
qed

text \<open>The responses that mean the credentials were refused: a status that is neither 200 nor retryable.\<close>

definition refused :: "gerror + http_response \<Rightarrow> bool" where
  "refused rep = (case rep of
      Inl _ \<Rightarrow> False
    | Inr resp \<Rightarrow> isOk (ResponseBody resp) \<and> Status resp \<noteq> 200 \<and> \<not> isRetryableStatus (Status resp))"

lemma isTransient_foreign: "foreign e \<Longrightarrow> isTransientMintError e"
  by (simp add: foreign_def isTransientMintError_def)

lemma transient_wrappers [simp]:
  "isTransientMintError (TokenRequestFailed e) = isTransientMintError e"
  "isTransientMintError (ReadingTokenResponse e) = isTransientMintError e"
  "isTransientMintError (ParsingRSAPrivateKey e) = isTransientMintError e"
  "isTransientMintError (SigningAssertion e) = isTransientMintError e"
  "isTransientMintError (UnsupportedGrantType g)" "isTransientMintError DecodingTokenResponse"
  "isTransientMintError NoAccessToken" "isTransientMintError InvalidCACert"
  "isTransientMintError (UrlError u)" "isTransientMintError NoPrivateKeyConfigured"
  by (simp_all add: isTransientMintError_def)

lemma refused_iff:
  assumes "reply_outcome rep = Inl (e, b)" "foreign_reply rep"
  shows "refused rep \<longleftrightarrow> \<not> isTransientMintError e" and "b \<Longrightarrow> isTransientMintError e"
proof -
  obtain err where err: "parseTokenError st body = OAuthError (err st body)"
    "StatusCode (err st body) = st" for st body
    using parseTokenError_status by metis
  have "(refused rep \<longleftrightarrow> \<not> isTransientMintError e) \<and> (b \<longrightarrow> isTransientMintError e)"
  proof (cases rep)
    case (Inl te)
    then show ?thesis using assms by (auto simp: refused_def isTransient_foreign)
  next
    case (Inr resp)
    then show ?thesis
      using assms
      by (auto simp: readTokenResponse_def refused_def Let_def isTransient_foreign err
          isTransientMintError_def [of "OAuthError _"] split: sum.splits if_splits option.splits)
  qed
  then show "refused rep \<longleftrightarrow> \<not> isTransientMintError e" "b \<Longrightarrow> isTransientMintError e" by blast+
qed

section \<open>The retry policy\<close>

text \<open>
  The policy as a relation on histories: attempt \<open>a\<close> with \<open>k\<close> more allowed. A result or a
  permanent error ends the run, a transient one is followed by a wait of at least the
  backoff of the next attempt and at most half as much again, then by that attempt, unless
  the context ends during the wait.
\<close>

definition backoff_ok :: "nat \<Rightarrow> Duration \<Rightarrow> bool" where
  "backoff_ok a d \<longleftrightarrow> tokenRetryBaseBackoff * 2 ^ (a - 1) \<le> d \<and> 2 * d \<le> 3 * (tokenRetryBaseBackoff * 2 ^ (a - 1))"

inductive retry_run ::
  "http_client \<Rightarrow> http_request \<Rightarrow> nat \<Rightarrow> nat \<Rightarrow> event list \<Rightarrow> gerror + tokenResult \<Rightarrow> bool"
  for cl :: http_client and rq :: http_request where
  success: "foreign_reply rep \<Longrightarrow> reply_outcome rep = Inr res \<Longrightarrow> retry_run cl rq a k [Sent cl rq rep] (Inr res)"
| stopped: "foreign_reply rep \<Longrightarrow> reply_outcome rep = Inl (e, b) \<Longrightarrow> \<not> b \<or> k = 0 \<or> \<not> isOk rep \<Longrightarrow>
    retry_run cl rq a k [Sent cl rq rep] (Inl e)"
| cancelled: "foreign_reply rep \<Longrightarrow> reply_outcome rep = Inl (e, True) \<Longrightarrow> backoff_ok (Suc a) d \<Longrightarrow> foreign e' \<Longrightarrow>
    retry_run cl rq a (Suc k) [Sent cl rq rep, Waited d] (Inl e')"
| again: "foreign_reply rep \<Longrightarrow> reply_outcome rep = Inl (e, True) \<Longrightarrow> backoff_ok (Suc a) d \<Longrightarrow>
    retry_run cl rq (Suc a) k evs r \<Longrightarrow> retry_run cl rq a (Suc k) (Sent cl rq rep # Waited d # evs) r"

text \<open>The exchanges of a history.\<close>

fun posts :: "event list \<Rightarrow> (http_client \<times> http_request \<times> (gerror + http_response)) list" where
  "posts [] = []"
| "posts (Sent cl rq rep # evs) = (cl, rq, rep) # posts evs"
| "posts (_ # evs) = posts evs"

lemma posts_append [simp]: "posts (xs @ ys) = posts xs @ posts ys"
  by (induction xs rule: posts.induct) simp_all

lemma retry_run_posts:
  assumes "retry_run cl rq a k evs r"
  shows "posts evs \<noteq> []" "length (posts evs) \<le> Suc k"
    "\<forall>p \<in> set (posts evs). fst p = cl \<and> fst (snd p) = rq"
    "\<forall>p \<in> set (butlast (posts evs)). \<exists>e. reply_outcome (snd (snd p)) = Inl (e, True)"
    "r = Inr res \<Longrightarrow> reply_outcome (snd (snd (last (posts evs)))) = Inr res"
    "r = Inl e \<Longrightarrow> \<not> isTransientMintError e \<Longrightarrow> refused (snd (snd (last (posts evs))))"
  using assms by (induction rule: retry_run.induct) (auto simp: refused_iff isTransient_foreign)

lemma tokenBackoff_small: "0 < a \<Longrightarrow> a \<le> 2 \<Longrightarrow> tokenBackoff a = tokenRetryBaseBackoff * 2 ^ (a - 1)"
  unfolding tokenBackoff_def
  by (intro wrap64_id)
    (auto simp: in_int64_def tokenRetryBaseBackoff_def time_Millisecond_def numeral_2_eq_2 le_Suc_eq)

context observed
begin

lemma do_http_adds:
  assumes "do_http P cl rq s = (r, s')"
  shows "added trace clk [Sent cl rq r] s s'" "foreign_reply r"
  using assms http_adds http_foreign by (fastforce simp: do_http_def added_def split: prod.splits)+

lemma ctx_Err_quiet: "ctx_Err P s = (r, s') \<Longrightarrow> added trace clk [] s s'"
  using ctx_quiet by (fastforce simp: ctx_Err_def added_def split: prod.splits)

lemma waitBackoff_adds:
  assumes "waitBackoff P a s = (r, s')" "0 < a" "a \<le> 2"
  shows "\<exists>d. backoff_ok a d \<and> added trace clk [Waited d] s s'" "r = Some e \<Longrightarrow> foreign e"
proof -
  let ?b = "tokenRetryBaseBackoff * 2 ^ (a - 1)"
  note b = tokenBackoff_small [OF assms(2,3)]
  obtain j w where j: "Rand_Int63n P (?b div 2 + 1) (ext s) = (j, w)" by fastforce
  obtain w' where w': "Wait_After P (wrap64 (?b + j)) w = (r, w')" "s' = s\<lparr>ext := w'\<rparr>"
    using assms(1) j by (auto simp: waitBackoff_def b split: prod.splits)
  have "0 < ?b" by (simp add: tokenRetryBaseBackoff_def time_Millisecond_def)
  then have range: "0 \<le> j" "j \<le> ?b div 2" using rand_range [OF j] by linarith+
  have "a = 1 \<or> a = 2" using assms by linarith
  then have "?b \<le> 400000000" by (auto simp: tokenRetryBaseBackoff_def time_Millisecond_def)
  then have "wrap64 (?b + j) = ?b + j"
    using range \<open>0 < ?b\<close> by (intro wrap64_id) (auto simp: in_int64_def)
  then have "backoff_ok a (wrap64 (?b + j))" using range by (auto simp: backoff_ok_def)
  moreover have "added trace clk [Waited (wrap64 (?b + j))] s s'"
    using adds_trans [OF rand_quiet [OF j] wait_adds [OF w'(1)]] w'(2) by (simp add: added_def)
  ultimately show "\<exists>d. backoff_ok a d \<and> added trace clk [Waited d] s s'" by blast
  show "r = Some e \<Longrightarrow> foreign e" using w'(1) wait_foreign by blast
qed

lemma doTokenRequestOnce_adds:
  assumes "doTokenRequestOnce P cl cfg f s = (r, s')" "newPost (tokenURL cfg) f tokenHeaders = Inr rq"
  obtains rep where "added trace clk [Sent cl rq rep] s s'" "foreign_reply rep"
    "r = reply_outcome rep \<or> \<not> isOk rep \<and> (\<exists>e. reply_outcome rep = Inl (e, True) \<and> r = Inl (e, False))"
proof -
  obtain rep s1 where h: "do_http P cl rq s = (rep, s1)" by fastforce
  obtain e s2 where c: "ctx_Err P s1 = (e, s2)" by fastforce
  note hs = do_http_adds [OF h]
  have "added trace clk [Sent cl rq rep] s s'"
    using assms h c added_quiet_right [OF hs(1) ctx_Err_quiet [OF c]] hs(1)
    by (auto simp: doTokenRequestOnce_def split: sum.splits option.splits)
  with assms h c hs(2) that show thesis
    by (auto simp: doTokenRequestOnce_def split: sum.splits option.splits)
qed

lemma last_attempt_run:
  assumes "doTokenRequestOnce P cl cfg f s = (r, s')" "newPost (tokenURL cfg) f tokenHeaders = Inr rq"
  shows "r = Inr res \<Longrightarrow> \<exists>evs. added trace clk evs s s' \<and> retry_run cl rq a k evs (Inr res)"
    and "r = Inl (e, b) \<Longrightarrow> b \<longrightarrow> k = 0 \<Longrightarrow> \<exists>evs. added trace clk evs s s' \<and> retry_run cl rq a k evs (Inl e)"
proof -
  obtain rep where rep: "added trace clk [Sent cl rq rep] s s'" "foreign_reply rep"
    "r = reply_outcome rep \<or> \<not> isOk rep \<and> (\<exists>e. reply_outcome rep = Inl (e, True) \<and> r = Inl (e, False))"
    using assms by (rule doTokenRequestOnce_adds)
  show "r = Inr res \<Longrightarrow> \<exists>evs. added trace clk evs s s' \<and> retry_run cl rq a k evs (Inr res)"
  proof -
    assume "r = Inr res"
    then have "reply_outcome rep = Inr res" using rep(3) by auto
    then show ?thesis using rep(1) retry_run.success [OF rep(2)] by blast
  qed
  show "r = Inl (e, b) \<Longrightarrow> b \<longrightarrow> k = 0 \<Longrightarrow> \<exists>evs. added trace clk evs s s' \<and> retry_run cl rq a k evs (Inl e)"
  proof -
    assume r: "r = Inl (e, b)" and b: "b \<longrightarrow> k = 0"
    have "reply_outcome rep = Inl (e, b) \<or> \<not> isOk rep \<and> reply_outcome rep = Inl (e, True)"
      using rep(3) unfolding r by auto
    then obtain b' where "reply_outcome rep = Inl (e, b')" "\<not> b' \<or> k = 0 \<or> \<not> isOk rep"
      using b by blast
    then show ?thesis using rep(1) retry_run.stopped [OF rep(2)] by blast
  qed
qed

text \<open>The loop of the code follows the policy.\<close>

lemma tokenAttempts_run:
  assumes "tokenAttempts P cl cfg f a k s = (r, s')" "newPost (tokenURL cfg) f tokenHeaders = Inr rq" "a + k = 2"
    "beforeAttempt P a s = (None, s0)"
  shows "\<exists>evs. added trace clk evs s0 s' \<and> retry_run cl rq a k evs r"
  using assms(1,3,4)
proof (induction k arbitrary: a s s0)
  case 0
  from 0(1) show ?case
  proof (cases rule: tokenAttempts_cases)
    case (success s1 res)
    then show ?thesis using 0(3) last_attempt_run(1) [OF _ assms(2)] by auto
  next
    case (stopped s1 e b)
    then show ?thesis using 0(3) last_attempt_run(2) [OF _ assms(2)] by auto
  qed (use 0(3) in auto)
next
  case (Suc k)
  from Suc(2) show ?case
  proof (cases rule: tokenAttempts_cases)
    case (success s1 res)
    then show ?thesis using Suc(4) last_attempt_run(1) [OF _ assms(2)] by auto
  next
    case (stopped s1 e b)
    then show ?thesis using Suc(4) last_attempt_run(2) [OF _ assms(2)] by auto
  next
    case (again s1 e s2 k')
    then have once: "doTokenRequestOnce P cl cfg f s0 = (Inl (e, True), s2)" and k': "k' = k"
      and rest: "tokenAttempts P cl cfg f (Suc a) k s2 = (r, s')"
      using Suc(4) by simp_all
    obtain rep where rep: "added trace clk [Sent cl rq rep] s0 s2" "foreign_reply rep"
        "reply_outcome rep = Inl (e, True)"
      using once assms(2) by (elim doTokenRequestOnce_adds) auto
    obtain w s3 where w: "beforeAttempt P (Suc a) s2 = (w, s3)" by fastforce
    then have wb: "waitBackoff P (Suc a) s2 = (w, s3)" by (simp add: beforeAttempt_def)
    obtain d where d: "backoff_ok (Suc a) d" "added trace clk [Waited d] s2 s3"
      using waitBackoff_adds(1) [OF wb] Suc(3) by auto
    note sofar = added_trans [OF rep(1) d(2)]
    show ?thesis
    proof (cases w)
      case None
      then obtain evs where "added trace clk evs s3 s'" "retry_run cl rq (Suc a) k evs r"
        using Suc(1) [OF rest] Suc(3) w by auto
      then show ?thesis
        using added_trans [OF sofar] retry_run.again [OF rep(2,3) d(1)] by fastforce
    next
      case (Some e')
      then have "r = Inl e'" "s' = s3"
        using rest w by (simp_all add: tokenAttempts.simps [of _ _ _ _ _ k])
      then show ?thesis
        using sofar retry_run.cancelled [OF rep(2,3) d(1) waitBackoff_adds(2) [OF wb _ _ Some]] Suc(3) by fastforce
    qed
  qed (use Suc(4) in auto)
qed

lemma doTokenRequest_run:
  assumes "doTokenRequest P cfg f s = (r, s')"
  obtains (unsent) e where "r = Inl e" "s' = s" "isTransientMintError e"
      "\<not> (isOk (httpClientFor P cfg) \<and> isOk (newPost (tokenURL cfg) f tokenHeaders))"
  | (sent) cl rq evs where "httpClientFor P cfg = Inr cl" "newPost (tokenURL cfg) f tokenHeaders = Inr rq"
      "added trace clk evs s s'" "retry_run cl rq 0 2 evs r"
proof (cases "httpClientFor P cfg")
  case (Inl e)
  then show thesis
    using assms by (intro unsent [of e]) (auto simp: doTokenRequest_def httpClientFor_def split: if_splits)
next
  case cl: (Inr cl)
  then have t: "tokenAttempts P cl cfg f 0 2 s = (r, s')"
    using assms by (simp add: doTokenRequest_def tokenRetryMaxAttempts_def)
  show thesis
  proof (cases "newPost (tokenURL cfg) f tokenHeaders")
    case (Inl e)
    then have "\<exists>u. e = UrlError u" by (auto simp: newPost_def split: sum.splits)
    with Inl t unsent show thesis
      by (subst (asm) tokenAttempts.simps) (auto simp: doTokenRequestOnce_def beforeAttempt_def)
  next
    case (Inr rq)
    with tokenAttempts_run [OF t Inr] sent [OF cl Inr] show thesis by (auto simp: beforeAttempt_def)
  qed
qed

text \<open>Revocation sends at most one request, to the revocation endpoint.\<close>

lemma revokeToken_run:
  assumes "revokeToken P cfg tok s = (r, s')"
  obtains (unsent) "s' = s" "tok = [] \<and> r = Inr () \<or> tok \<noteq> [] \<and> \<not> isOk r"
  | (sent) cl rq rep where "tok \<noteq> []" "httpClientFor P cfg = Inr cl"
      "newPost (revokeURL cfg) [(''token'', tok)] revokeHeaders = Inr rq"
      "added trace clk [Sent cl rq rep] s s'" "isOk r \<longleftrightarrow> (\<exists>resp. rep = Inr resp \<and> Status resp = 200)"
proof (cases "tok = [] \<or> (\<exists>e. httpClientFor P cfg = Inl e)
    \<or> (\<exists>e. newPost (revokeURL cfg) [(''token'', tok)] revokeHeaders = Inl e)")
  case True
  with assms unsent show thesis
    by (auto simp: revokeToken_def split: if_splits sum.splits)
next
  case False
  then obtain cl rq where cr: "tok \<noteq> []" "httpClientFor P cfg = Inr cl"
    "newPost (revokeURL cfg) [(''token'', tok)] revokeHeaders = Inr rq"
    by (metis old.sum.exhaust)
  obtain rep s1 where h: "do_http P cl rq s = (rep, s1)" by fastforce
  have "s' = s1 \<and> (isOk r \<longleftrightarrow> (\<exists>resp. rep = Inr resp \<and> Status resp = 200))"
    using assms cr h by (auto simp: revokeToken_def split: sum.splits if_splits)
  with do_http_adds(1) [OF h] sent [OF cr] show thesis by simp
qed

end

end
