(* ===== verification/Creds.thy ===== *)
theory Creds
  imports Client
begin

text \<open>
  \<^verbatim>\<open>path_creds.go\<close>: issuing a token for a role, from the cache or by a mint under the role's
  lock. The pool of locks is the platform's; a wait for a lock may let other requests run, so
  nothing is assumed about the storage across \<^verbatim>\<open>Lock\<close>.
\<close>

definition secretAccessTokenType :: string where
  "secretAccessTokenType = ''salesforce_access_token''"

definition computeExpiry :: "Time \<Rightarrow> salesforceRole \<Rightarrow> tokenResult \<Rightarrow> Time" where
  "computeExpiry t role res =
     (if 0 < ExpiresIn res then Time_Add t (secs (ExpiresIn res))
      else Time_Add t (if TokenTTL role \<le> 0 then 15 * time_Minute else TokenTTL role))"

definition mintToken ::
  "('w, 'b, 'k) platform \<Rightarrow> salesforceConfig \<Rightarrow> salesforceRole \<Rightarrow> ('w, 'k, tokenResult) op" where
  "mintToken P cfg role s =
     (if GrantType role = grantClientCredential then requestClientCredentialsToken P cfg s
      else if GrantType role = grantJWTBearer then requestJWTBearerToken P cfg role s
      else (Inl (UnsupportedGrantType (GrantType role)), s))"

text \<open>The token that a mint started at \<open>t\<close> stores.\<close>

definition mintedToken :: "Time \<Rightarrow> salesforceRole \<Rightarrow> tokenResult \<Rightarrow> cachedToken" where
  "mintedToken t role res =
     \<lparr>ctAccessToken = AccessToken res, ctInstanceURL = InstanceURL res, ctTokenType = TokenType res,
      ctScope = Scope res, IssuedAt = t, ExpiresAt = computeExpiry t role res\<rparr>"

definition mintAndCache ::
  "('w, 'b, 'k) platform \<Rightarrow> string \<Rightarrow> salesforceConfig \<Rightarrow> salesforceRole \<Rightarrow> ('w, 'k, cachedToken) op" where
  "mintAndCache P roleName cfg role s = (case now P s of (t, s) \<Rightarrow>
     (case mintToken P cfg role s of
        (Inl err, s) \<Rightarrow> (Inl err, s)
      | (Inr res, s) \<Rightarrow>
        (let ct = mintedToken t role res
         in case putCachedToken P roleName ct s of
              (Inl err, s) \<Rightarrow> (Inl err, s)
            | (Inr _, s) \<Rightarrow> (Inr ct, log (MintedToken roleName (GrantType role) (ExpiresAt ct)) s))))"

section \<open>Issuing a token\<close>

text \<open>\<^verbatim>\<open>ct != nil && ct.fresh(time.Now(), role.RenewSkew)\<close>: the clock is read for a token only.\<close>

definition ifFresh ::
  "('w, 'b, 'k) platform \<Rightarrow> salesforceRole \<Rightarrow> cachedToken option \<Rightarrow> ('w, 'k) engine \<Rightarrow>
     cachedToken option \<times> ('w, 'k) engine" where
  "ifFresh P role oct s = (case oct of
      None \<Rightarrow> (None, s)
    | Some ct \<Rightarrow> (case now P s of (t, s) \<Rightarrow>
        if fresh ct t (RenewSkew role) then (Some ct, s) else (None, s)))"

text \<open>\<^verbatim>\<open>err == nil && ct != nil && time.Now().Before(ct.ExpiresAt)\<close>\<close>

definition ifUnexpired ::
  "('w, 'b, 'k) platform \<Rightarrow> gerror + cachedToken option \<Rightarrow> ('w, 'k) engine \<Rightarrow>
     cachedToken option \<times> ('w, 'k) engine" where
  "ifUnexpired P r s = (case r of
      Inr (Some ct) \<Rightarrow> (case now P s of (t, s) \<Rightarrow>
        if Time_Before t (ExpiresAt ct) then (Some ct, s) else (None, s))
    | _ \<Rightarrow> (None, s))"

definition try_lock ::
  "('w, 'b, 'k) platform \<Rightarrow> nat \<Rightarrow> ('w, 'k) engine \<Rightarrow> bool \<times> ('w, 'k) engine" where
  "try_lock P ix s = (case TryLock P ix (ext s) of (got, w) \<Rightarrow> (got, s\<lparr>ext := w\<rparr>))"

definition lock :: "('w, 'b, 'k) platform \<Rightarrow> nat \<Rightarrow> ('w, 'k) engine \<Rightarrow> ('w, 'k) engine" where
  "lock P ix s = s\<lparr>ext := Lock P ix (ext s)\<rparr>"

definition unlock :: "('w, 'b, 'k) platform \<Rightarrow> nat \<Rightarrow> ('w, 'k) engine \<Rightarrow> ('w, 'k) engine" where
  "unlock P ix s = s\<lparr>ext := Unlock P ix (ext s)\<rparr>"

text \<open>
  Taking the role's lock. When another request holds it, an unexpired cached token is
  served (\<open>Some\<close>) instead of waiting.
\<close>

definition acquireMintLock ::
  "('w, 'b, 'k) platform \<Rightarrow> string \<Rightarrow> ('w, 'k) engine \<Rightarrow> cachedToken option \<times> ('w, 'k) engine" where
  "acquireMintLock P roleName s = (case try_lock P (LockForKey P roleName) s of
      (True, s) \<Rightarrow> (None, s)
    | (False, s) \<Rightarrow>
      (case getCachedToken P roleName s of (r, s) \<Rightarrow>
        (case ifUnexpired P r s of
           (Some ct, s) \<Rightarrow> (Some ct, s)
         | (None, s) \<Rightarrow> (None, lock P (LockForKey P roleName) s))))"

text \<open>
  The end of a failed mint: serve the cached token on a transient failure while it is valid,
  purge it on a definitive one.
\<close>

definition mintFailed ::
  "('w, 'b, 'k) platform \<Rightarrow> string \<Rightarrow> gerror \<Rightarrow> ('w, 'k, cachedToken \<times> bool) op" where
  "mintFailed P roleName err s = (case getCachedToken P roleName s of (r, s) \<Rightarrow>
     (case ifUnexpired P r s of (existing, s) \<Rightarrow>
        if existing \<noteq> None \<and> isTransientMintError err then
          (Inr (the existing, True),
           log (MintFailedServingCached roleName err (ExpiresAt (the existing))) s)
        else if \<not> isTransientMintError err then
          (case deleteCachedToken P roleName s of
             (Inl dErr, s) \<Rightarrow> (Inl dErr, s)
           | (Inr _, s) \<Rightarrow> (Inl err, s))
        else (Inl err, s)))"

definition issueByMint ::
  "('w, 'b, 'k) platform \<Rightarrow> string \<Rightarrow> salesforceConfig \<Rightarrow> salesforceRole \<Rightarrow> ('w, 'k, cachedToken \<times> bool) op" where
  "issueByMint P roleName cfg role s = (case mintAndCache P roleName cfg role s of
      (Inl err, s) \<Rightarrow> mintFailed P roleName err s
    | (Inr ct, s) \<Rightarrow> (Inr (ct, False), s))"

text \<open>What happens under the lock: the second check of the cache, then the mint.\<close>

definition issueUnderLock ::
  "('w, 'b, 'k) platform \<Rightarrow> string \<Rightarrow> salesforceConfig \<Rightarrow> salesforceRole \<Rightarrow> ('w, 'k, cachedToken \<times> bool) op" where
  "issueUnderLock P roleName cfg role s = (case getCachedToken P roleName s of
      (Inl err, s) \<Rightarrow> (Inl err, s)
    | (Inr oct, s) \<Rightarrow>
      (case ifFresh P role oct s of
         (Some ct, s) \<Rightarrow> (Inr (ct, True), s)
       | (None, s) \<Rightarrow> issueByMint P roleName cfg role s))"

definition issueToken ::
  "('w, 'b, 'k) platform \<Rightarrow> string \<Rightarrow> salesforceConfig \<Rightarrow> salesforceRole \<Rightarrow> ('w, 'k, cachedToken \<times> bool) op" where
  "issueToken P roleName cfg role s = (case getCachedToken P roleName s of
      (Inl err, s) \<Rightarrow> (Inl err, s)
    | (Inr oct, s) \<Rightarrow>
      (case ifFresh P role oct s of
         (Some ct, s) \<Rightarrow> (Inr (ct, True), s)
       | (None, s) \<Rightarrow>
         (case acquireMintLock P roleName s of
            (Some ct, s) \<Rightarrow> (Inr (ct, True), s)
          | (None, s) \<Rightarrow>
            (case issueUnderLock P roleName cfg role s of
               (r, s) \<Rightarrow> (r, unlock P (LockForKey P roleName) s)))))"

definition credsData :: "salesforceRole \<Rightarrow> cachedToken \<Rightarrow> bool \<Rightarrow> string \<rightharpoonup> rvalue" where
  "credsData role token cached =
     [''access_token'' \<mapsto> RString (ctAccessToken token),
      ''instance_url'' \<mapsto> RString (ctInstanceURL token),
      ''token_type'' \<mapsto> RString (ctTokenType token),
      ''expires_at'' \<mapsto> RString (Format_RFC3339 (ExpiresAt token)),
      ''grant_type'' \<mapsto> RString (GrantType role),
      ''cached'' \<mapsto> RBool cached]"

definition credsSecret :: "string \<Rightarrow> salesforceRole \<Rightarrow> secret" where
  "credsSecret roleName role =
     \<lparr>secretType = secretAccessTokenType, InternalData = [''role'' \<mapsto> RString roleName],
      secretTTL = TTL role, secretMaxTTL = MaxTTL role\<rparr>"

definition pathCredsRead :: "('w, 'b, 'k) platform \<Rightarrow> field_data \<Rightarrow> ('w, 'k) handler" where
  "pathCredsRead P data s =
     (let roleName = GetString data ''name''
      in case getRole P roleName s of
        (Inl err, s) \<Rightarrow> (Inl err, s)
      | (Inr None, s) \<Rightarrow> (Inr (Some (ErrorResponse (RoleDoesNotExist roleName))), s)
      | (Inr (Some role), s) \<Rightarrow>
        (case getConfig P (Config role) s of
           (Inl err, s) \<Rightarrow> (Inl err, s)
         | (Inr None, s) \<Rightarrow>
             (Inr (Some (ErrorResponse (ConfigForRoleDoesNotExist (Config role) roleName))), s)
         | (Inr (Some cfg), s) \<Rightarrow>
           (case issueToken P roleName cfg role s of
              (Inl err, s) \<Rightarrow> (Inl err, s)
            | (Inr (token, cached), s) \<Rightarrow>
                (Inr (Some (SecretResponse (credsData role token cached) (credsSecret roleName role))), s))))"

section \<open>What issuing a token changes\<close>

text \<open>
  From \<open>s\<close> to \<open>s'\<close> no record changed but the cached token of role \<open>n\<close>, which is gone or
  replaced by one with an access token.
\<close>

definition touches_token ::
  "('w, 'b, 'k) platform \<Rightarrow> ('w, 'b) view \<Rightarrow> string \<Rightarrow> ('w, 'k) engine \<Rightarrow> ('w, 'k) engine \<Rightarrow> bool" where
  "touches_token P view n s s' \<longleftrightarrow>
     configAt P view s' = configAt P view s \<and> roleAt P view s' = roleAt P view s
     \<and> (\<forall>m. m \<noteq> n \<longrightarrow> tokenAt P view s' m = tokenAt P view s m)
     \<and> (tokenAt P view s' n \<in> {tokenAt P view s n, None}
        \<or> (\<exists>ct. tokenAt P view s' n = Some ct \<and> ctAccessToken ct \<noteq> []))"

lemma touches_token_same: "same_store view s s' \<Longrightarrow> touches_token P view n s s'"
  using same_store_contents [of view s s' P] by (simp add: touches_token_def)

lemma touches_token_trans:
  "touches_token P view n s t \<Longrightarrow> touches_token P view n t u \<Longrightarrow> touches_token P view n s u"
  by (auto simp: touches_token_def)

lemma touches_token_log [simp]: "touches_token P view n s (log e s') = touches_token P view n s s'"
  by (simp add: touches_token_def configAt_def roleAt_def tokenAt_def log_def fun_eq_iff)

lemma contents_log [simp]:
  "configAt P view (log e s) = configAt P view s" "roleAt P view (log e s) = roleAt P view s"
  "tokenAt P view (log e s) = tokenAt P view s" "key_cache_ok P (log e s) = key_cache_ok P s"
  by (simp_all add: configAt_def roleAt_def tokenAt_def key_cache_ok_def log_def fun_eq_iff)

lemma mintAndCache_cases:
  assumes "mintAndCache P n cfg role s = (r, s')"
  obtains (unminted) t s1 e where "now P s = (t, s1)" "mintToken P cfg role s1 = (Inl e, s')" "r = Inl e"
  | (unstored) t s1 res s2 e where "now P s = (t, s1)" "mintToken P cfg role s1 = (Inr res, s2)"
      "putCachedToken P n (mintedToken t role res) s2 = (Inl e, s')" "r = Inl e"
  | (minted) t s1 res s2 s3 where "now P s = (t, s1)" "mintToken P cfg role s1 = (Inr res, s2)"
      "putCachedToken P n (mintedToken t role res) s2 = (Inr (), s3)"
      "s' = log (MintedToken n (GrantType role) (ExpiresAt (mintedToken t role res))) s3"
      "r = Inr (mintedToken t role res)"
  using assms unfolding mintAndCache_def
  by (auto simp: Let_def split: prod.splits sum.splits)

context barrier
begin

lemma now_same: "now P s = (t, s') \<Longrightarrow> same_store view s s' \<and> rsaKeyCache s' = rsaKeyCache s"
  using now_spec by (simp add: same_store_def)

lemma requestClientCredentialsToken_frame:
  "requestClientCredentialsToken P cfg s = (r, s') \<Longrightarrow>
    same_store view s s' \<and> (key_cache_ok P s \<longrightarrow> key_cache_ok P s')"
  unfolding requestClientCredentialsToken_def
  using doTokenRequest_frame key_cache_ok_same by metis

lemma requestJWTBearerToken_frame:
  assumes "requestJWTBearerToken P cfg role s = (r, s')"
  shows "same_store view s s' \<and> (key_cache_ok P s \<longrightarrow> key_cache_ok P s')"
proof -
  obtain t s1 where n: "now P s = (t, s1)" by fastforce
  obtain a s2 where b: "buildJWTAssertion P cfg role t s1 = (a, s2)" by fastforce
  have "same_store view s s2 \<and> (key_cache_ok P s \<longrightarrow> key_cache_ok P s2)"
    using now_same [OF n] buildJWTAssertion_frame [OF b] buildJWTAssertion_direct(2) [OF _ b]
      key_cache_ok_same by (metis same_store_def)
  moreover have "s' = s2 \<or> (\<exists>f. doTokenRequest P cfg f s2 = (r, s'))"
    using assms n b by (auto simp: requestJWTBearerToken_def split: sum.splits)
  ultimately show ?thesis
    using doTokenRequest_frame key_cache_ok_same same_store_trans by metis
qed

lemma mintToken_frame:
  "mintToken P cfg role s = (r, s') \<Longrightarrow> same_store view s s' \<and> (key_cache_ok P s \<longrightarrow> key_cache_ok P s')"
  using requestClientCredentialsToken_frame requestJWTBearerToken_frame
  by (auto simp: mintToken_def split: if_splits)

lemma ifFresh_spec:
  assumes "ifFresh P role oct s = (r, s')"
  shows "same_store view s s' \<and> rsaKeyCache s' = rsaKeyCache s"
    and "r = Some ct \<Longrightarrow> oct = Some ct \<and> (\<exists>t. now P s = (t, s') \<and> fresh ct t (RenewSkew role))"
  using assms now_same by (fastforce simp: ifFresh_def split: option.splits prod.splits if_splits)+

lemma ifUnexpired_spec:
  assumes "ifUnexpired P q s = (r, s')"
  shows "same_store view s s' \<and> rsaKeyCache s' = rsaKeyCache s"
    and "r = Some ct \<Longrightarrow> q = Inr (Some ct) \<and> (\<exists>t. now P s = (t, s') \<and> t < ExpiresAt ct)"
  using assms now_same
  by (fastforce simp: ifUnexpired_def Time_Before_def split: option.splits sum.splits prod.splits if_splits)+

lemma doTokenRequest_text:
  assumes "doTokenRequest P cfg f s = (Inr res, s')"
  shows "result_text res \<and> AccessToken res \<noteq> []"
proof -
  have attempts: "tokenAttempts P cl cfg f a k s = (Inr res, s') \<Longrightarrow> result_text res \<and> AccessToken res \<noteq> []" for cl a k s
  proof (induction k arbitrary: a s)
    case 0
    then show ?case
      by (cases rule: tokenAttempts_cases)
        (auto simp: doTokenRequestOnce_def dest: readTokenResponse_text split: sum.splits prod.splits option.splits)
  next
    case (Suc k)
    from Suc(2) show ?case
      by (cases rule: tokenAttempts_cases)
        (auto simp: doTokenRequestOnce_def dest: readTokenResponse_text Suc(1) split: sum.splits prod.splits option.splits)
  qed
  then show ?thesis using assms by (auto simp: doTokenRequest_def split: sum.splits)
qed

lemma mintToken_text:
  "mintToken P cfg role s = (Inr res, s') \<Longrightarrow> result_text res \<and> AccessToken res \<noteq> []"
  by (auto simp: mintToken_def requestClientCredentialsToken_def requestJWTBearerToken_def
      dest: doTokenRequest_text split: if_splits prod.splits sum.splits)

lemma mintedToken_text: "result_text res \<Longrightarrow> token_text (mintedToken t role res)"
  by (simp add: token_text_def mintedToken_def result_text_def)

lemma putCachedToken_self:
  assumes "putCachedToken P n t s = (r, s')" "token_text t"
  shows "tokenAt P view s' n \<in> {tokenAt P view s n, Some t}"
  using assms token_roundtrip [OF assms(2)]
  by (auto simp: putCachedToken_def tokenAt_def dest!: st_Put_spec(1) split: sum.splits)

lemma mintAndCache_spec:
  assumes "mintAndCache P n cfg role s = (r, s')"
  shows "touches_token P view n s s'" "key_cache_ok P s \<Longrightarrow> key_cache_ok P s'"
    and "r = Inr ct \<Longrightarrow> tokenAt P view s' = (tokenAt P view s)(n \<mapsto> ct)"
proof -
  have frame: "touches_token P view n s s2 \<and> same_store view s s2 \<and> (key_cache_ok P s \<longrightarrow> key_cache_ok P s2)"
    if "now P s = (t, s1)" "mintToken P cfg role s1 = (m, s2)" for t s1 m s2
    using now_same [OF that(1)] mintToken_frame [OF that(2)] same_store_trans
      touches_token_same key_cache_ok_same by metis
  have put: "touches_token P view n s2 s3 \<and> rsaKeyCache s3 = rsaKeyCache s2"
    if "putCachedToken P n (mintedToken t role res) s2 = (p, s3)" "mintToken P cfg role s1 = (Inr res, s2)"
    for t res p s1 s2 s3
  proof -
    have "result_text res" "AccessToken res \<noteq> []" using mintToken_text [OF that(2)] by auto
    then have "tokenAt P view s3 n \<in> {tokenAt P view s2 n, Some (mintedToken t role res)}"
      "ctAccessToken (mintedToken t role res) \<noteq> []"
      using putCachedToken_self [OF that(1) mintedToken_text] by (simp_all add: mintedToken_def)
    then show ?thesis using putCachedToken_spec [OF that(1)] unfolding touches_token_def by auto
  qed
  from assms have "touches_token P view n s s' \<and> (key_cache_ok P s \<longrightarrow> key_cache_ok P s')
    \<and> (\<forall>ct. r = Inr ct \<longrightarrow> tokenAt P view s' = (tokenAt P view s)(n \<mapsto> ct))"
  proof (cases rule: mintAndCache_cases)
    case (unminted t s1 e)
    then show ?thesis using frame by blast
  next
    case (unstored t s1 res s2 e)
    then show ?thesis using frame put touches_token_trans key_cache_ok_same by (metis Inl_Inr_False)
  next
    case (minted t s1 res s2 s3)
    have "token_text (mintedToken t role res)"
      using minted(2) mintToken_text mintedToken_text by blast
    then have "tokenAt P view s3 = (tokenAt P view s2)(n \<mapsto> mintedToken t role res)"
      using putCachedToken_spec(6) [OF minted(3)] by simp
    then have "tokenAt P view s3 = (tokenAt P view s)(n \<mapsto> mintedToken t role res)"
      using frame [OF minted(1,2)] same_store_contents(3) by metis
    moreover have "touches_token P view n s s3" "key_cache_ok P s \<Longrightarrow> key_cache_ok P s3"
      using frame [OF minted(1,2)] put [OF minted(3,2)] touches_token_trans key_cache_ok_same by metis+
    ultimately show ?thesis using minted(4,5) by simp
  qed
  then show "touches_token P view n s s'" "key_cache_ok P s \<Longrightarrow> key_cache_ok P s'"
    "r = Inr ct \<Longrightarrow> tokenAt P view s' = (tokenAt P view s)(n \<mapsto> ct)"
    by blast+
qed

end

section \<open>What a mint sends\<close>

text \<open>The form a mint posts for a role: the client credentials, or a freshly signed assertion.\<close>

definition mint_form ::
  "('w, 'b, 'k) platform \<Rightarrow> salesforceConfig \<Rightarrow> salesforceRole \<Rightarrow> Time \<Rightarrow> form \<Rightarrow> bool" where
  "mint_form P cfg role t f \<longleftrightarrow>
     GrantType role = grantClientCredential \<and> f = clientCredentialsForm cfg
     \<or> GrantType role = grantJWTBearer \<and> (\<exists>key a. parseRSADirect P (PrivateKey cfg) = Inr key
        \<and> SignedString P key (jwtClaims cfg role t) = Inr a \<and> f = jwtBearerForm a)"

definition lock_free :: "event list \<Rightarrow> bool" where
  "lock_free evs \<longleftrightarrow> (\<forall>ix. Locked ix \<notin> set evs \<and> Unlocked ix \<notin> set evs)"

text \<open>
  The history of a mint: nothing at all and a failure that is not the endpoint's, or a run of
  the retry policy with one request, a form posted to the token endpoint of the configuration.
\<close>

definition mint_history ::
  "('w, 'b, 'k) platform \<Rightarrow> salesforceConfig \<Rightarrow> salesforceRole \<Rightarrow> Time \<Rightarrow> event list \<Rightarrow> gerror + tokenResult \<Rightarrow> bool" where
  "mint_history P cfg role t evs r \<longleftrightarrow>
     evs = [] \<and> (\<exists>e. r = Inl e \<and> isTransientMintError e)
     \<or> (\<exists>cl f rq. httpClientFor P cfg = Inr cl \<and> mint_form P cfg role t f
          \<and> newPost (tokenURL cfg) f tokenHeaders = Inr rq \<and> retry_run cl rq 0 2 evs r)"

lemma retry_run_lock_free: "retry_run cl rq a k evs r \<Longrightarrow> lock_free evs"
  by (induction rule: retry_run.induct) (auto simp: lock_free_def)

lemma newPost_request:
  "newPost u f h = Inr rq \<longleftrightarrow> isOk (url_Parse u) \<and> rq = \<lparr>Method = ''POST'', RequestURL = u, Header = h, Body = Values_Encode f\<rparr>"
  by (auto simp: newPost_def isOk_iff split: sum.splits)

lemma mint_history_posts:
  assumes "mint_history P cfg role t evs r"
  shows "lock_free evs" "length (posts evs) \<le> 3"
    "\<forall>(cl, rq, rep) \<in> set (posts evs). httpClientFor P cfg = Inr cl \<and> Method rq = ''POST''
       \<and> RequestURL rq = tokenURL cfg \<and> (\<exists>f. mint_form P cfg role t f \<and> Body rq = Values_Encode f)"
    "r = Inr res \<Longrightarrow> posts evs \<noteq> [] \<and> reply_outcome (snd (snd (last (posts evs)))) = Inr res"
    "r = Inl e \<Longrightarrow> \<not> isTransientMintError e \<Longrightarrow> posts evs \<noteq> [] \<and> refused (snd (snd (last (posts evs))))"
proof -
  consider "evs = []" "\<exists>e. r = Inl e \<and> isTransientMintError e"
    | cl f rq where "httpClientFor P cfg = Inr cl" "mint_form P cfg role t f"
      "newPost (tokenURL cfg) f tokenHeaders = Inr rq" "retry_run cl rq 0 2 evs r"
    using assms by (auto simp: mint_history_def)
  then have "lock_free evs \<and> length (posts evs) \<le> 3
    \<and> (\<forall>(cl, rq, rep) \<in> set (posts evs). httpClientFor P cfg = Inr cl \<and> Method rq = ''POST''
       \<and> RequestURL rq = tokenURL cfg \<and> (\<exists>f. mint_form P cfg role t f \<and> Body rq = Values_Encode f))
    \<and> (r = Inr res \<longrightarrow> posts evs \<noteq> [] \<and> reply_outcome (snd (snd (last (posts evs)))) = Inr res)
    \<and> (r = Inl e \<longrightarrow> \<not> isTransientMintError e \<longrightarrow> posts evs \<noteq> [] \<and> refused (snd (snd (last (posts evs)))))"
  proof cases
    case 1
    then show ?thesis by (auto simp: lock_free_def)
  next
    case 2
    note run = retry_run_posts [OF 2(4)]
    have "rq = \<lparr>Method = ''POST'', RequestURL = tokenURL cfg, Header = tokenHeaders, Body = Values_Encode f\<rparr>"
      using 2(3) by (simp add: newPost_request)
    then have "\<forall>(cl, rq, rep) \<in> set (posts evs). httpClientFor P cfg = Inr cl \<and> Method rq = ''POST''
       \<and> RequestURL rq = tokenURL cfg \<and> (\<exists>f. mint_form P cfg role t f \<and> Body rq = Values_Encode f)"
      using run(3) 2(1,2) by fastforce
    then show ?thesis using run retry_run_lock_free [OF 2(4)] by simp
  qed
  then show "lock_free evs" "length (posts evs) \<le> 3"
    "\<forall>(cl, rq, rep) \<in> set (posts evs). httpClientFor P cfg = Inr cl \<and> Method rq = ''POST''
       \<and> RequestURL rq = tokenURL cfg \<and> (\<exists>f. mint_form P cfg role t f \<and> Body rq = Values_Encode f)"
    "r = Inr res \<Longrightarrow> posts evs \<noteq> [] \<and> reply_outcome (snd (snd (last (posts evs)))) = Inr res"
    "r = Inl e \<Longrightarrow> \<not> isTransientMintError e \<Longrightarrow> posts evs \<noteq> [] \<and> refused (snd (snd (last (posts evs))))"
    by blast+
qed

text \<open>A run whose last reply refuses the credentials ends in a definitive error.\<close>

lemma retry_run_refused:
  assumes "retry_run cl rq a k evs r" "refused (snd (snd (last (posts evs))))"
  shows "\<exists>e. r = Inl e \<and> \<not> isTransientMintError e"
  using assms
proof (induction rule: retry_run.induct)
  case (success rep res)
  then show ?case
    by (cases rep) (auto simp: refused_def readTokenResponse_def Let_def split: sum.splits if_splits)
next
  case (cancelled rep e a d e' k)
  then show ?case using refused_iff [of rep e True] by simp
next
  case (again rep e a d k evs r)
  then show ?case using retry_run_posts(1) [OF again.hyps(4)] by simp
qed (auto simp: refused_iff)

lemma mint_history_refused:
  assumes "mint_history P cfg role t evs r" "posts evs \<noteq> []" "refused (snd (snd (last (posts evs))))"
  shows "\<exists>e. r = Inl e \<and> \<not> isTransientMintError e"
  using assms retry_run_refused by (auto simp: mint_history_def)

text \<open>
  The answers \<open>r\<close> of a request for role \<open>n\<close> that cannot be served: the role or its configuration
  does not exist, or the storage failed.
\<close>

definition unknown ::
  "('w, 'b, 'k) platform \<Rightarrow> ('w, 'b) view \<Rightarrow> ('w, 'k) engine \<Rightarrow> string \<Rightarrow> gerror + response option \<Rightarrow> bool" where
  "unknown P view s n r \<longleftrightarrow> (isOk r \<longrightarrow>
     roleAt P view s n = None \<and> r = Inr (Some (ErrorResponse (RoleDoesNotExist n)))
     \<or> (\<exists>role. roleAt P view s n = Some role \<and> configAt P view s (Config role) = None
         \<and> r = Inr (Some (ErrorResponse (ConfigForRoleDoesNotExist (Config role) n)))))"

text \<open>Some time between \<open>s\<close> and \<open>s'\<close> the cache could not be read, or had no unexpired token for role \<open>n\<close>.\<close>

definition no_usable_token ::
  "('w, 'b, 'k) platform \<Rightarrow> ('w, 'b) view \<Rightarrow> ('w \<Rightarrow> Time) \<Rightarrow> string \<Rightarrow> ('w, 'k) engine \<Rightarrow> ('w, 'k) engine \<Rightarrow> bool" where
  "no_usable_token P view clk n s s' \<longleftrightarrow>
     (\<exists>e s1 s2. getCachedToken P n s1 = (Inl e, s2))
     \<or> tokenAt P view s' n = None
     \<or> (\<exists>ct t. tokenAt P view s' n = Some ct \<and> ExpiresAt ct \<le> t \<and> clk (ext s) \<le> t \<and> t \<le> clk (ext s'))"

lemma no_usable_token_later:
  "no_usable_token P view clk n s1 s' \<Longrightarrow> clk (ext s) \<le> clk (ext s1) \<Longrightarrow> no_usable_token P view clk n s s'"
  unfolding no_usable_token_def by (meson order_trans)

text \<open>The ways a mint attempt \<open>m\<close> started at \<open>t0\<close> can end.\<close>

inductive mint_outcome ::
  "('w, 'b, 'k) platform \<Rightarrow> ('w, 'b) view \<Rightarrow> ('w \<Rightarrow> Time) \<Rightarrow> string \<Rightarrow> salesforceRole \<Rightarrow> Time \<Rightarrow>
     ('w, 'k) engine \<Rightarrow> ('w, 'k) engine \<Rightarrow> gerror + tokenResult \<Rightarrow> gerror + cachedToken \<times> bool \<Rightarrow> bool"
  for P view clk n role t0 s s' where
  minted: "result_text res \<Longrightarrow> AccessToken res \<noteq> [] \<Longrightarrow>
    tokenAt P view s' n = Some (mintedToken t0 role res) \<Longrightarrow>
    mint_outcome P view clk n role t0 s s' (Inr res) (Inr (mintedToken t0 role res, False))"
| served: "m = Inl e \<or> isOk m \<and> foreign e \<Longrightarrow> isTransientMintError e \<Longrightarrow> tokenAt P view s' n = Some ct \<Longrightarrow>
    t < ExpiresAt ct \<Longrightarrow> clk (ext s) \<le> t \<Longrightarrow> t \<le> clk (ext s') \<Longrightarrow>
    mint_outcome P view clk n role t0 s s' m (Inr (ct, True))"
| failed: "m = Inl e \<or> isOk m \<and> foreign e \<Longrightarrow> isTransientMintError e \<Longrightarrow> no_usable_token P view clk n s s' \<Longrightarrow>
    mint_outcome P view clk n role t0 s s' m (Inl e)"
| purged: "\<not> isTransientMintError e \<Longrightarrow> tokenAt P view s' n = None \<Longrightarrow>
    mint_outcome P view clk n role t0 s s' (Inl e) (Inl e)"
| unpurged: "\<not> isTransientMintError e \<Longrightarrow> deleteCachedToken P n s2 = (Inl e', s') \<Longrightarrow>
    mint_outcome P view clk n role t0 s s' (Inl e) (Inl e')"

context observed
begin

lemma buildJWTAssertion_foreign:
  assumes "key_cache_ok P s" "buildJWTAssertion P cfg role t s = (Inl e, s')"
  shows "isTransientMintError e"
  using buildJWTAssertion_direct(1) [OF assms] key_foreign sign_foreign
  by (auto simp: parseRSADirect_def isTransient_foreign split: sum.splits if_splits)

lemma doTokenRequest_history:
  assumes "doTokenRequest P cfg f s = (r, s')" "mint_form P cfg role t f"
  shows "\<exists>evs. added trace clk evs s s' \<and> mint_history P cfg role t evs r"
  using assms(1)
proof (cases rule: doTokenRequest_run)
  case (unsent e)
  then show ?thesis by (intro exI [of _ "[]"]) (simp add: mint_history_def)
next
  case (sent cl rq evs)
  then show ?thesis using assms(2) by (auto simp: mint_history_def)
qed

lemma requestJWTBearerToken_history:
  assumes "requestJWTBearerToken P cfg role s = (r, s')" "GrantType role = grantJWTBearer" "key_cache_ok P s"
  obtains t evs where "added trace clk evs s s'" "mint_history P cfg role t evs r"
    "clk (ext s) \<le> t" "t \<le> clk (ext s')"
proof -
  obtain t s1 where n: "now P s = (t, s1)" by fastforce
  obtain a s2 where b: "buildJWTAssertion P cfg role t s1 = (a, s2)" by fastforce
  have k1: "key_cache_ok P s1" using assms(3) now_same [OF n] key_cache_ok_same by blast
  have quiet: "added trace clk [] s s2"
    using now_quiet_s(1) [OF n] buildJWTAssertion_frame [OF b] by (simp add: added_def)
  have "\<exists>evs. added trace clk evs s2 s' \<and> mint_history P cfg role t evs r"
  proof (cases a)
    case (Inl e)
    then show ?thesis
      using assms(1) n b buildJWTAssertion_foreign [OF k1] by (intro exI [of _ "[]"])
        (auto simp: requestJWTBearerToken_def mint_history_def)
  next
    case (Inr w)
    then have "mint_form P cfg role t (jwtBearerForm w)"
      using assms(2) buildJWTAssertion_direct(1) [OF k1 b]
      by (auto simp: mint_form_def split: sum.splits)
    with assms(1) n b Inr show ?thesis by (simp add: requestJWTBearerToken_def doTokenRequest_history)
  qed
  then obtain evs where evs: "added trace clk evs s2 s'" "mint_history P cfg role t evs r" by blast
  have "t \<le> clk (ext s')"
    using now_quiet_s(3) [OF n] buildJWTAssertion_frame [OF b] added_clock [OF evs(1)] by simp
  then show thesis
    using that [OF added_quiet_left [OF quiet evs(1)] evs(2)] now_quiet_s(2) [OF n] by simp
qed

lemma mintToken_history:
  assumes "mintToken P cfg role s = (r, s')" "key_cache_ok P s"
  obtains t evs where "added trace clk evs s s'" "mint_history P cfg role t evs r"
    "clk (ext s) \<le> t" "t \<le> clk (ext s')"
proof (cases "GrantType role = grantJWTBearer")
  case True
  then have "requestJWTBearerToken P cfg role s = (r, s')" using assms(1) by (simp add: mintToken_def)
  then show thesis using True assms(2) that by (rule requestJWTBearerToken_history)
next
  case False
  have "\<exists>evs. added trace clk evs s s' \<and> mint_history P cfg role (clk (ext s)) evs r"
  proof (cases "GrantType role = grantClientCredential")
    case True
    then have "mint_form P cfg role (clk (ext s)) (clientCredentialsForm cfg)" by (simp add: mint_form_def)
    with True show ?thesis
      using assms(1) doTokenRequest_history by (simp add: mintToken_def requestClientCredentialsToken_def)
  next
    case no: False
    with False assms(1) show ?thesis
      by (intro exI [of _ "[]"]) (auto simp: mintToken_def mint_history_def)
  qed
  then show thesis using that added_clock by blast
qed

lemma mintAndCache_history:
  assumes "mintAndCache P n cfg role s = (r, s')" "key_cache_ok P s"
  obtains t0 t evs m where "added trace clk evs s s'" "mint_history P cfg role t evs m"
    "clk (ext s) \<le> t0" "t0 \<le> t" "t \<le> clk (ext s')"
    "\<forall>ct. r = Inr ct \<longrightarrow> (\<exists>res. m = Inr res \<and> ct = mintedToken t0 role res \<and> result_text res \<and> AccessToken res \<noteq> [])"
    "\<forall>e. r = Inl e \<longrightarrow> m = Inl e \<and> tokenAt P view s' n = tokenAt P view s n
      \<or> foreign e \<and> (\<exists>res. m = Inr res \<and> tokenAt P view s' n \<in> {tokenAt P view s n, Some (mintedToken t0 role res)})"
proof -
  obtain t0 s1 where n: "now P s = (t0, s1)" by fastforce
  obtain m s2 where m: "mintToken P cfg role s1 = (m, s2)" by fastforce
  have "key_cache_ok P s1" using assms(2) now_same [OF n] key_cache_ok_same by blast
  with m obtain t evs where evs: "added trace clk evs s1 s2" "mint_history P cfg role t evs m"
    "clk (ext s1) \<le> t" "t \<le> clk (ext s2)"
    by (rule mintToken_history)
  note now = now_quiet_s [OF n]
  have s2: "added trace clk evs s s2" using added_quiet_left [OF now(1) evs(1)] .
  have "added trace clk [] s2 s'"
    using assms(1)
    by (cases rule: mintAndCache_cases) (use n m in \<open>auto dest: putCachedToken_quiet\<close>)
  then have s': "added trace clk evs s s'" "t \<le> clk (ext s')"
    using added_quiet_right [OF s2] added_clock evs(4) by fastforce+
  have tok: "tokenAt P view s2 = tokenAt P view s"
    using now_same [OF n] mintToken_frame [OF m] same_store_contents(3) by metis
  have "r = Inr ct \<Longrightarrow> \<exists>res. m = Inr res \<and> ct = mintedToken t0 role res \<and> result_text res \<and> AccessToken res \<noteq> []"
    for ct
    using assms(1) by (cases rule: mintAndCache_cases) (use n m in \<open>auto dest: mintToken_text\<close>)
  moreover have "m = Inl e \<and> tokenAt P view s' n = tokenAt P view s n
      \<or> foreign e \<and> (\<exists>res. m = Inr res \<and> tokenAt P view s' n \<in> {tokenAt P view s n, Some (mintedToken t0 role res)})"
    if "r = Inl e" for e
    using assms(1)
  proof (cases rule: mintAndCache_cases)
    case (unstored t' s1' res s2' e')
    then have "putCachedToken P n (mintedToken t0 role res) s2 = (Inl e, s')" "m = Inr res"
      using n m that by auto
    then show ?thesis
      using putCachedToken_foreign putCachedToken_self mintToken_text m mintedToken_text tok by (metis insert_iff)
  qed (use n m that tok in auto)
  ultimately show thesis
    using that [OF s'(1) evs(2) now(2) _ s'(2)] now(3) evs(3) by simp
qed

lemma ifFresh_quiet:
  assumes "ifFresh P role oct s = (r, s')"
  shows "added trace clk [] s s'"
    and "r = Some ct \<Longrightarrow> oct = Some ct \<and> (\<exists>t. fresh ct t (RenewSkew role) \<and> clk (ext s) \<le> t \<and> t \<le> clk (ext s'))"
  using assms now_quiet_s by (fastforce simp: ifFresh_def split: option.splits prod.splits if_splits)+

lemma ifFresh_None:
  assumes "ifFresh P role (Some ct) s = (None, s')"
  shows "\<exists>t. \<not> fresh ct t (RenewSkew role) \<and> clk (ext s) \<le> t \<and> t \<le> clk (ext s')"
  using assms now_quiet_s by (fastforce simp: ifFresh_def split: prod.splits if_splits)

lemma ifUnexpired_quiet:
  assumes "ifUnexpired P q s = (r, s')"
  shows "added trace clk [] s s'"
    and "r = Some ct \<Longrightarrow> q = Inr (Some ct) \<and> (\<exists>t. t < ExpiresAt ct \<and> clk (ext s) \<le> t \<and> t \<le> clk (ext s'))"
  using assms now_quiet_s
  by (fastforce simp: ifUnexpired_def Time_Before_def split: option.splits sum.splits prod.splits if_splits)+

lemma ifUnexpired_None:
  assumes "ifUnexpired P q s = (None, s')"
  shows "(\<exists>e. q = Inl e) \<or> q = Inr None
    \<or> (\<exists>ct t. q = Inr (Some ct) \<and> ExpiresAt ct \<le> t \<and> clk (ext s) \<le> t \<and> t \<le> clk (ext s'))"
proof (cases "\<exists>ct. q = Inr (Some ct)")
  case True
  then obtain ct where ct: "q = Inr (Some ct)" by blast
  obtain t s1 where t: "now P s = (t, s1)" by fastforce
  have "ExpiresAt ct \<le> t" "s' = s1"
    using assms ct t by (auto simp: ifUnexpired_def Time_Before_def split: if_splits)
  then show ?thesis using ct now_quiet_s(2,3) [OF t] by blast
next
  case False
  then show ?thesis by (metis not_None_eq old.sum.exhaust)
qed

lemma mintFailed_spec:
  assumes "mintFailed P n err s = (r, s')"
  obtains (serve) ct t where "r = Inr (ct, True)" "isTransientMintError err" "tokenAt P view s n = Some ct"
      "same_store view s s'" "t < ExpiresAt ct" "clk (ext s) \<le> t" "t \<le> clk (ext s')"
      "added trace clk [] s s'" "rsaKeyCache s' = rsaKeyCache s"
  | (fail) "r = Inl err" "isTransientMintError err" "same_store view s s'"
      "no_usable_token P view clk n s s'"
      "added trace clk [] s s'" "rsaKeyCache s' = rsaKeyCache s"
  | (purge) e where "r = Inl e" "\<not> isTransientMintError err" "drops_tokens view {n} s s'"
      "e = err \<and> tokenAt P view s' n = None \<or> (\<exists>s2. deleteCachedToken P n s2 = (Inl e, s'))"
      "added trace clk [] s s'" "rsaKeyCache s' = rsaKeyCache s"
proof -
  obtain g s1 where g: "getCachedToken P n s = (g, s1)" by fastforce
  obtain u s2 where u: "ifUnexpired P g s1 = (u, s2)" by fastforce
  obtain d s3 where d: "deleteCachedToken P n s2 = (d, s3)" by fastforce
  note gs = getCachedToken_spec [OF g] and us = ifUnexpired_spec [OF u] and ds = deleteCachedToken_spec [OF d]
  have same: "same_store view s s2" using gs(1) us(1) same_store_trans by blast
  have quiet: "added trace clk [] s s2" "added trace clk [] s s3"
    using getCachedToken_quiet [OF g] ifUnexpired_quiet(1) [OF u] deleteCachedToken_quiet [OF d]
      added_quiet_left by blast+
  have keys: "rsaKeyCache s2 = rsaKeyCache s" "rsaKeyCache s3 = rsaKeyCache s" using gs us ds by simp_all
  have drops: "drops_tokens view {n} s s3"
    using drops_tokens_trans [OF drops_tokens_refl [OF same] ds(1)] .
  consider (a) ct where "u = Some ct" "isTransientMintError err" "r = Inr (ct, True)"
      "s' = log (MintFailedServingCached n err (ExpiresAt ct)) s2"
    | (b) "u = None" "isTransientMintError err" "r = Inl err" "s' = s2"
    | (c) e where "\<not> isTransientMintError err" "r = Inl e" "s' = s3" "isOk d \<and> e = err \<or> d = Inl e"
    using assms g u d
    by (cases u; cases d) (auto simp: mintFailed_def split: if_splits)
  then show thesis
  proof cases
    case (a ct)
    obtain t where t: "g = Inr (Some ct)" "t < ExpiresAt ct" "clk (ext s1) \<le> t" "t \<le> clk (ext s2)"
      using ifUnexpired_quiet(2) [OF u a(1)] by blast
    show thesis
      by (rule serve [of ct t])
        (use a t gs(4) [OF t(1)] same quiet keys added_clock [OF getCachedToken_quiet [OF g]] in simp_all)
  next
    case b
    then have "no_usable_token P view clk n s s'"
    proof -
      have tok: "tokenAt P view s' = tokenAt P view s" using b(4) same_store_contents(3) [OF same] by simp
      have clk: "clk (ext s) \<le> clk (ext s1)" using added_clock [OF getCachedToken_quiet [OF g]] .
      consider e' where "g = Inl e'" | "g = Inr None"
        | ct t where "g = Inr (Some ct)" "ExpiresAt ct \<le> t" "clk (ext s1) \<le> t" "t \<le> clk (ext s2)"
        using ifUnexpired_None [OF u [unfolded b(1)]] by blast
      then show ?thesis
      proof cases
        case 1
        then show ?thesis using g unfolding no_usable_token_def by blast
      next
        case 2
        then show ?thesis using gs(4) [OF 2] tok by (simp add: no_usable_token_def)
      next
        case (3 ct t)
        then have "tokenAt P view s' n = Some ct" "clk (ext s) \<le> t" using gs(4) [OF 3(1)] tok clk by simp_all
        then show ?thesis using 3(2,4) b(4) unfolding no_usable_token_def by blast
      qed
    qed
    then show thesis using b fail same quiet keys by simp
  next
    case (c e)
    then show thesis
      using drops quiet keys g u d ds(4) by (intro purge [of e]) auto
  qed
qed

lemma drops_touches: "drops_tokens view {n} s s' \<Longrightarrow> touches_token P view n s s'"
  using drops_tokens_contents [of view "{n}" s s' P] by (auto simp: touches_token_def)

lemma mintFailed_outcome:
  assumes "mintFailed P n e s1 = (r, s')" "m = Inl e \<or> isOk m \<and> foreign e" "clk (ext s) \<le> clk (ext s1)"
  shows "mint_outcome P view clk n role t0 s s' m r"
  using assms(1)
proof (cases rule: mintFailed_spec)
  case (serve ct t)
  have "tokenAt P view s' n = Some ct" using serve(3,4) same_store_contents(3) by metis
  moreover have "clk (ext s) \<le> t" using serve(6) assms(3) by simp
  ultimately show ?thesis using serve(1,2,5,7) assms(2) mint_outcome.served by metis
next
  case fail
  then show ?thesis using assms(2) mint_outcome.failed no_usable_token_later [OF fail(4) assms(3)] by metis
next
  case (purge e')
  then have "m = Inl e" using assms(2) isTransient_foreign by blast
  then show ?thesis using purge(1,2,4) mint_outcome.purged mint_outcome.unpurged by metis
qed

lemma mintFailed_frame:
  assumes "mintFailed P n e s = (r, s')"
  shows "touches_token P view n s s' \<and> added trace clk [] s s' \<and> rsaKeyCache s' = rsaKeyCache s"
  using assms
  by (cases rule: mintFailed_spec) (simp_all add: touches_token_same drops_touches)

lemma issueByMint_history:
  assumes "issueByMint P n cfg role s = (r, s')" and keys: "key_cache_ok P s"
  obtains t0 t evs m where "added trace clk evs s s'" "mint_history P cfg role t evs m"
    "clk (ext s) \<le> t0" "t0 \<le> clk (ext s')" "touches_token P view n s s'" "key_cache_ok P s'"
    "mint_outcome P view clk n role t0 s s' m r"
proof -
  obtain mr s1 where mr: "mintAndCache P n cfg role s = (mr, s1)" by fastforce
  note spec = mintAndCache_spec [OF mr]
  obtain t0 t evs m where hist: "added trace clk evs s s1" "mint_history P cfg role t evs m"
    "clk (ext s) \<le> t0" "t0 \<le> t" "t \<le> clk (ext s1)"
    and ok: "\<forall>ct. mr = Inr ct \<longrightarrow>
      (\<exists>res. m = Inr res \<and> ct = mintedToken t0 role res \<and> result_text res \<and> AccessToken res \<noteq> [])"
    and err: "\<forall>e. mr = Inl e \<longrightarrow> m = Inl e \<and> tokenAt P view s1 n = tokenAt P view s n
      \<or> foreign e \<and> (\<exists>res. m = Inr res \<and> tokenAt P view s1 n \<in> {tokenAt P view s n, Some (mintedToken t0 role res)})"
    using mr keys by (rule mintAndCache_history)
  have "touches_token P view n s1 s' \<and> added trace clk [] s1 s' \<and> rsaKeyCache s' = rsaKeyCache s1
      \<and> mint_outcome P view clk n role t0 s s' m r"
  proof (cases mr)
    case (Inl e)
    then have f: "mintFailed P n e s1 = (r, s')" using assms(1) mr by (simp add: issueByMint_def)
    have "m = Inl e \<or> isOk m \<and> foreign e" using err Inl by auto
    then show ?thesis
      using mintFailed_frame [OF f] mintFailed_outcome [OF f] hist(3-5) by simp
  next
    case (Inr ct)
    then have "r = Inr (ct, False)" "s' = s1" using assms(1) mr by (simp_all add: issueByMint_def)
    then show ?thesis
      using ok Inr spec(3) [OF Inr] by (auto simp: touches_token_def intro: mint_outcome.minted)
  qed
  then have fin: "touches_token P view n s1 s'" "added trace clk [] s1 s'" "rsaKeyCache s' = rsaKeyCache s1"
      "mint_outcome P view clk n role t0 s s' m r"
    by blast+
  have "t0 \<le> clk (ext s')" using hist(4,5) added_clock [OF fin(2)] by linarith
  then show thesis
    using that [OF added_quiet_right [OF hist(1) fin(2)] hist(2,3) _ touches_token_trans [OF spec(1) fin(1)]]
      key_cache_ok_same [OF spec(2) [OF keys] fin(3)] fin(4) by blast
qed

text \<open>The check of the cache that \<^verbatim>\<open>issueToken\<close> makes before and after it takes the lock.\<close>

lemma cacheCheck:
  assumes g: "getCachedToken P n s = (g, s1)" and f: "g = Inr oct \<Longrightarrow> ifFresh P role oct s1 = (f, s2)"
  shows "same_store view s s1" "added trace clk [] s s1" "rsaKeyCache s1 = rsaKeyCache s"
    and "g = Inr oct \<Longrightarrow> same_store view s s2" "g = Inr oct \<Longrightarrow> added trace clk [] s s2"
    and "g = Inr oct \<Longrightarrow> rsaKeyCache s2 = rsaKeyCache s"
    and "g = Inr oct \<Longrightarrow> f = Some ct \<Longrightarrow> tokenAt P view s n = Some ct
      \<and> (\<exists>t. fresh ct t (RenewSkew role) \<and> clk (ext s) \<le> t \<and> t \<le> clk (ext s2))"
    and "g = Inr oct \<Longrightarrow> f = None \<Longrightarrow> tokenAt P view s n = Some ct \<Longrightarrow>
      \<exists>t. \<not> fresh ct t (RenewSkew role) \<and> clk (ext s) \<le> t \<and> t \<le> clk (ext s2)"
proof -
  note gs = getCachedToken_spec [OF g] and gq = getCachedToken_quiet [OF g]
  show "same_store view s s1" "added trace clk [] s s1" "rsaKeyCache s1 = rsaKeyCache s" using gs gq by auto
  assume "g = Inr oct"
  note f = f [OF this] and oct = gs(4) [OF this]
  note fs = ifFresh_spec(1) [OF f] and fq = ifFresh_quiet [OF f]
  show "same_store view s s2" "added trace clk [] s s2" "rsaKeyCache s2 = rsaKeyCache s"
    using gs(1,2) fs gq fq(1) same_store_trans added_quiet_left by auto
  show "tokenAt P view s n = Some ct
      \<and> (\<exists>t. fresh ct t (RenewSkew role) \<and> clk (ext s) \<le> t \<and> t \<le> clk (ext s2))" if "f = Some ct"
    using fq(2) [OF that] oct added_clock [OF gq] by fastforce
  show "\<exists>t. \<not> fresh ct t (RenewSkew role) \<and> clk (ext s) \<le> t \<and> t \<le> clk (ext s2)"
    if "f = None" "tokenAt P view s n = Some ct"
    using f ifFresh_None [of role ct s1 s2] that oct added_clock [OF gq] by fastforce
qed

text \<open>What can happen under the lock.\<close>

lemma issueUnderLock_cases:
  assumes "issueUnderLock P n cfg role s = (r, s')" and keys: "key_cache_ok P s"
  obtains (unread) e where "r = Inl e" "foreign e" "same_store view s s'" "added trace clk [] s s'" "key_cache_ok P s'"
  | (hit) ct t where "r = Inr (ct, True)" "tokenAt P view s n = Some ct" "fresh ct t (RenewSkew role)"
      "clk (ext s) \<le> t" "t \<le> clk (ext s')" "same_store view s s'" "added trace clk [] s s'" "key_cache_ok P s'"
  | (tried) t0 t evs m where "added trace clk evs s s'" "mint_history P cfg role t evs m"
      "clk (ext s) \<le> t0" "t0 \<le> clk (ext s')" "touches_token P view n s s'" "key_cache_ok P s'"
      "mint_outcome P view clk n role t0 s s' m r"
proof -
  obtain g s1 where g: "getCachedToken P n s = (g, s1)" by fastforce
  show thesis
  proof (cases g)
    case (Inl e)
    with assms g have "r = Inl e" "s' = s1" by (simp_all add: issueUnderLock_def)
    with cacheCheck(1-3) [OF g] Inl unread key_cache_ok_same [OF keys] getCachedToken_foreign g show thesis by simp
  next
    case (Inr oct)
    obtain f s2 where f: "ifFresh P role oct s1 = (f, s2)" by fastforce
    note check = cacheCheck [OF g f]
    have k2: "key_cache_ok P s2" using check(6) [OF Inr] key_cache_ok_same [OF keys] by simp
    show thesis
    proof (cases f)
      case (Some ct)
      with assms g Inr f have "r = Inr (ct, True)" "s' = s2" by (simp_all add: issueUnderLock_def)
      with check(4,5,7) [OF Inr] Some hit k2 show thesis by blast
    next
      case None
      with assms g Inr f have "issueByMint P n cfg role s2 = (r, s')" by (simp add: issueUnderLock_def)
      then obtain t0 t evs m where h: "added trace clk evs s2 s'" "mint_history P cfg role t evs m"
        "clk (ext s2) \<le> t0" "t0 \<le> clk (ext s')" "touches_token P view n s2 s'" "key_cache_ok P s'"
        "mint_outcome P view clk n role t0 s2 s' m r"
        using k2 by (rule issueByMint_history)
      have clk: "clk (ext s) \<le> clk (ext s2)" using added_clock check(5) [OF Inr] by blast
      have "mint_outcome P view clk n role t0 s s' m r"
        using h(7) clk
        by (cases rule: mint_outcome.cases) (auto intro: mint_outcome.intros no_usable_token_later)
      then show thesis
        using tried [OF added_quiet_left [OF check(5) [OF Inr] h(1)] h(2) _ h(4) _ h(6)] clk h(3)
          touches_token_trans [OF touches_token_same [OF check(4) [OF Inr]] h(5)] by simp
    qed
  qed
qed

lemma try_lock_spec:
  assumes "try_lock P ix s = (got, s')"
  shows "same_store view s s'" "rsaKeyCache s' = rsaKeyCache s"
    "added trace clk (if got then [Locked ix] else []) s s'"
  using assms trylock_frame trylock_adds
  by (fastforce simp: try_lock_def same_store_def added_def split: prod.splits)+

lemma lock_spec:
  shows "added trace clk [Locked ix] s (lock P ix s)" "rsaKeyCache (lock P ix s) = rsaKeyCache s"
  using lock_adds by (simp_all add: lock_def added_def)

lemma unlock_spec:
  shows "added trace clk [Unlocked ix] s (unlock P ix s)" "rsaKeyCache (unlock P ix s) = rsaKeyCache s"
    "same_store view s (unlock P ix s)"
  using unlock_adds unlock_frame by (simp_all add: unlock_def added_def same_store_def)

lemma acquireMintLock_cases:
  assumes "acquireMintLock P n s = (r, s')"
  obtains (contended) ct t where "r = Some ct" "tokenAt P view s n = Some ct" "t < ExpiresAt ct"
      "clk (ext s) \<le> t" "t \<le> clk (ext s')" "same_store view s s'" "added trace clk [] s s'"
      "rsaKeyCache s' = rsaKeyCache s"
  | (locked) "r = None" "added trace clk [Locked (LockForKey P n)] s s'" "rsaKeyCache s' = rsaKeyCache s"
      "same_store view s s' \<or> (\<exists>s1. same_store view s s1 \<and> s' = lock P (LockForKey P n) s1)"
proof -
  obtain got s1 where t: "try_lock P (LockForKey P n) s = (got, s1)" by fastforce
  note ts = try_lock_spec [OF t]
  obtain g s2 where g: "getCachedToken P n s1 = (g, s2)" by fastforce
  note gs = getCachedToken_spec [OF g] and gq = getCachedToken_quiet [OF g]
  obtain u s3 where u: "ifUnexpired P g s2 = (u, s3)" by fastforce
  note us = ifUnexpired_spec [OF u] and uq = ifUnexpired_quiet [OF u]
  have same: "same_store view s s3" using ts(1) gs(1) us(1) same_store_trans by blast
  have quiet: "added trace clk [] s s3" if "\<not> got"
    using ts(3) that gq uq(1) added_quiet_left by (metis (full_types))
  show thesis
  proof (cases "got \<or> u = None")
    case True
    with assms t g u ts gs us quiet same added_quiet_left [OF quiet lock_spec(1)] locked show thesis
      by (cases got) (auto simp: acquireMintLock_def lock_spec(2), blast)
  next
    case False
    then obtain ct where ct: "u = Some ct" and r: "r = Some ct" "s' = s3"
      using assms t g u by (auto simp: acquireMintLock_def)
    obtain tm where tm: "g = Inr (Some ct)" "tm < ExpiresAt ct" "clk (ext s2) \<le> tm" "tm \<le> clk (ext s3)"
      using uq(2) [OF ct] by blast
    have "added trace clk [] s s2" using False ts(3) gq added_quiet_left by (metis (full_types))
    then have "clk (ext s) \<le> tm" using added_clock tm(3) by fastforce
    moreover have "tokenAt P view s n = Some ct"
      using gs(4) [OF tm(1)] same_store_contents(3) [OF ts(1)] by metis
    ultimately show thesis
      using contended [of ct tm] r tm(2,4) same quiet False ts gs us by simp
  qed
qed

text \<open>What can happen in \<^verbatim>\<open>issueToken\<close>.\<close>

lemma issueToken_cases:
  assumes "issueToken P n cfg role s = (r, s')"
  obtains (unread) e where "r = Inl e" "foreign e" "same_store view s s'" "added trace clk [] s s'" "rsaKeyCache s' = rsaKeyCache s"
  | (hit) ct t where "r = Inr (ct, True)" "tokenAt P view s n = Some ct" "fresh ct t (RenewSkew role)"
      "clk (ext s) \<le> t" "t \<le> clk (ext s')" "same_store view s s'" "added trace clk [] s s'"
      "rsaKeyCache s' = rsaKeyCache s"
  | (contended) ct t where "r = Inr (ct, True)" "tokenAt P view s n = Some ct" "t < ExpiresAt ct"
      "clk (ext s) \<le> t" "t \<le> clk (ext s')" "same_store view s s'" "added trace clk [] s s'"
      "rsaKeyCache s' = rsaKeyCache s"
  | (locked) s1 s2 where "added trace clk [Locked (LockForKey P n)] s s1" "rsaKeyCache s1 = rsaKeyCache s"
      "same_store view s s1 \<or> (\<exists>s0. same_store view s s0 \<and> s1 = lock P (LockForKey P n) s0)"
      "issueUnderLock P n cfg role s1 = (r, s2)" "s' = unlock P (LockForKey P n) s2"
      "\<forall>ct. tokenAt P view s n = Some ct \<longrightarrow>
        (\<exists>t. \<not> fresh ct t (RenewSkew role) \<and> clk (ext s) \<le> t \<and> t \<le> clk (ext s1))"
proof -
  obtain g s1 where g: "getCachedToken P n s = (g, s1)" by fastforce
  show thesis
  proof (cases g)
    case (Inl e)
    with assms g have "r = Inl e" "s' = s1" by (simp_all add: issueToken_def)
    with cacheCheck(1-3) [OF g] Inl unread getCachedToken_foreign g show thesis by simp
  next
    case (Inr oct)
    obtain f s2 where f: "ifFresh P role oct s1 = (f, s2)" by fastforce
    note check = cacheCheck [OF g f]
    show thesis
    proof (cases f)
      case (Some ct)
      with assms g Inr f have "r = Inr (ct, True)" "s' = s2" by (simp_all add: issueToken_def)
      with check(4-7) [OF Inr] Some hit show thesis by blast
    next
      case None
      obtain a s3 where a: "acquireMintLock P n s2 = (a, s3)" by fastforce
      note same = check(4) [OF Inr] and quiet = check(5) [OF Inr]
      from a show thesis
      proof (cases rule: acquireMintLock_cases)
        case (contended ct t)
        then have "r = Inr (ct, True)" "s' = s3" using assms g Inr f None a by (simp_all add: issueToken_def)
        moreover have "tokenAt P view s n = Some ct" "same_store view s s3"
          using contended(2,6) same same_store_trans same_store_contents(3) by metis+
        ultimately show thesis
          using that(3) contended(3-5,7,8) check(6) [OF Inr] quiet added_clock [OF quiet]
            added_quiet_left [OF quiet contended(7)] by fastforce
      next
        case l: locked
        obtain s4 where "issueUnderLock P n cfg role s3 = (r, s4)" "s' = unlock P (LockForKey P n) s4"
          using assms g Inr f None a l(1) by (auto simp: issueToken_def split: prod.splits)
        moreover have "\<forall>ct. tokenAt P view s n = Some ct \<longrightarrow>
            (\<exists>t. \<not> fresh ct t (RenewSkew role) \<and> clk (ext s) \<le> t \<and> t \<le> clk (ext s3))"
          using check(8) [OF Inr None] added_clock [OF l(2)] by fastforce
        moreover have "same_store view s s3 \<or> (\<exists>s0. same_store view s s0 \<and> s3 = lock P (LockForKey P n) s0)"
          using l(4) same same_store_trans by blast
        ultimately show thesis
          using that(4) [OF added_quiet_left [OF quiet l(2)]] l(3) check(6) [OF Inr] by simp
      qed
    qed
  qed
qed

lemma issueToken_history:
  assumes "issueToken P n cfg role s = (r, s')" "key_cache_ok P s"
  obtains (plain) "added trace clk [] s s'"
  | (bracket) evs t m where "added trace clk (Locked (LockForKey P n) # evs @ [Unlocked (LockForKey P n)]) s s'"
      "evs = [] \<or> mint_history P cfg role t evs m"
  using assms(1)
proof (cases rule: issueToken_cases)
  case (locked s1 s2)
  let ?ix = "LockForKey P n"
  have k1: "key_cache_ok P s1" using key_cache_ok_same [OF assms(2) locked(2)] .
  have wrap: "added trace clk (Locked ?ix # evs @ [Unlocked ?ix]) s s'" if "added trace clk evs s1 s2" for evs
    using added_trans [OF added_trans [OF locked(1) that] unlock_spec(1)] locked(5) by simp
  from locked(4) k1 show thesis
  proof (cases rule: issueUnderLock_cases)
    case (tried t0 t evs m)
    then show thesis using bracket [OF wrap] by blast
  qed (use bracket [OF wrap] in blast)+
qed (use plain in simp_all)

text \<open>The requests of a call: none, or those of a mint, between taking and releasing the lock.\<close>

lemma issueToken_contacts:
  assumes "issueToken P n cfg role s = (r, s')" "key_cache_ok P s" and ix: "ix = LockForKey P n"
  obtains evs mid where "added trace clk evs s s'" "evs = [] \<or> evs = Locked ix # mid @ [Unlocked ix]"
    "lock_free mid" "length (posts evs) \<le> 3"
    "\<forall>(cl, rq, rep) \<in> set (posts evs). httpClientFor P cfg = Inr cl \<and> Method rq = ''POST'' \<and> RequestURL rq = tokenURL cfg"
proof (cases rule: issueToken_history [OF assms(1,2)])
  case 1
  then show thesis using that [of "[]" "[]"] by (simp add: lock_free_def)
next
  case (2 mid t m)
  have "lock_free mid" "length (posts mid) \<le> 3"
    "\<forall>(cl, rq, rep) \<in> set (posts mid). httpClientFor P cfg = Inr cl \<and> Method rq = ''POST'' \<and> RequestURL rq = tokenURL cfg"
    using 2(2) mint_history_posts(1-3) [of P cfg role t mid m] by (auto simp: lock_free_def)
  then show thesis using that [of "Locked ix # mid @ [Unlocked ix]" mid] 2(1) ix by simp
qed

lemma issueToken_served:
  assumes "issueToken P n cfg role s = (Inr (ct, cached), s')" "key_cache_ok P s"
  shows "tokenAt P view s' n = Some ct"
    and "cached \<Longrightarrow> \<exists>t. clk (ext s) \<le> t \<and> t \<le> clk (ext s') \<and> (fresh ct t (RenewSkew role) \<or> t < ExpiresAt ct)"
    and "\<not> cached \<Longrightarrow> \<exists>t0 res. clk (ext s) \<le> t0 \<and> t0 \<le> clk (ext s') \<and> ct = mintedToken t0 role res
      \<and> result_text res \<and> AccessToken res \<noteq> []"
proof -
  have "tokenAt P view s' n = Some ct
    \<and> (if cached then \<exists>t. clk (ext s) \<le> t \<and> t \<le> clk (ext s') \<and> (fresh ct t (RenewSkew role) \<or> t < ExpiresAt ct)
       else \<exists>t0 res. clk (ext s) \<le> t0 \<and> t0 \<le> clk (ext s') \<and> ct = mintedToken t0 role res
         \<and> result_text res \<and> AccessToken res \<noteq> [])"
    using assms(1)
  proof (cases rule: issueToken_cases)
    case (hit ct' t)
    then show ?thesis using same_store_contents(3) [OF hit(6), of P] by auto
  next
    case (contended ct' t)
    then show ?thesis using same_store_contents(3) [OF contended(6), of P] by auto
  next
    case (locked s1 s2)
    have k1: "key_cache_ok P s1" using key_cache_ok_same [OF assms(2) locked(2)] .
    have start: "clk (ext s) \<le> clk (ext s1)" and stop: "clk (ext s2) \<le> clk (ext s')"
      using added_clock [OF locked(1)] added_clock [OF unlock_spec(1)] locked(5) by auto
    have tok: "tokenAt P view s' = tokenAt P view s2" using same_store_contents(3) [OF unlock_spec(3)] locked(5) by simp
    from locked(4) k1 show ?thesis
    proof (cases rule: issueUnderLock_cases)
      case (hit ct' t)
      then show ?thesis using tok same_store_contents(3) [OF hit(6), of P] start stop by (auto intro: exI [of _ t])
    next
      case (tried t0 t evs m)
      from tried(7) show ?thesis
      proof cases
        case (minted res)
        then show ?thesis using tok tried(3,4) start stop by (auto intro: exI [of _ t0])
      next
        case (served e t1)
        then show ?thesis using tok start stop by (auto intro: exI [of _ t1])
      qed
    qed simp
  qed simp
  then show "tokenAt P view s' n = Some ct"
    "cached \<Longrightarrow> \<exists>t. clk (ext s) \<le> t \<and> t \<le> clk (ext s') \<and> (fresh ct t (RenewSkew role) \<or> t < ExpiresAt ct)"
    "\<not> cached \<Longrightarrow> \<exists>t0 res. clk (ext s) \<le> t0 \<and> t0 \<le> clk (ext s') \<and> ct = mintedToken t0 role res
      \<and> result_text res \<and> AccessToken res \<noteq> []"
    by (auto split: if_splits)
qed

lemma issueToken_refused:
  assumes "issueToken P n cfg role s = (Inl e, s')" "key_cache_ok P s" "\<not> isTransientMintError e"
  shows "tokenAt P view s' n = None"
    and "\<exists>evs t. added trace clk (Locked (LockForKey P n) # evs @ [Unlocked (LockForKey P n)]) s s'
      \<and> mint_history P cfg role t evs (Inl e)"
proof -
  have "tokenAt P view s' n = None
    \<and> (\<exists>evs t. added trace clk (Locked (LockForKey P n) # evs @ [Unlocked (LockForKey P n)]) s s'
      \<and> mint_history P cfg role t evs (Inl e))"
    using assms(1)
  proof (cases rule: issueToken_cases)
    case (unread e')
    then show ?thesis using assms(3) isTransient_foreign by simp
  next
    case (locked s1 s2)
    let ?ix = "LockForKey P n"
    have k1: "key_cache_ok P s1" using key_cache_ok_same [OF assms(2) locked(2)] .
    have tok: "tokenAt P view s' = tokenAt P view s2" using same_store_contents(3) [OF unlock_spec(3)] locked(5) by simp
    from locked(4) k1 show ?thesis
    proof (cases rule: issueUnderLock_cases)
      case (unread e')
      then show ?thesis using assms(3) isTransient_foreign by simp
    next
      case (tried t0 t evs m)
      have "added trace clk (Locked ?ix # evs @ [Unlocked ?ix]) s s'"
        using added_trans [OF added_trans [OF locked(1) tried(1)] unlock_spec(1)] locked(5) by simp
      moreover from tried(7) have "m = Inl e \<and> tokenAt P view s2 n = None"
        by cases (use assms(3) isTransient_foreign deleteCachedToken_foreign in auto)
      ultimately show ?thesis using tried(2) tok by auto
    qed simp
  qed simp_all
  then show "tokenAt P view s' n = None"
    "\<exists>evs t. added trace clk (Locked (LockForKey P n) # evs @ [Unlocked (LockForKey P n)]) s s'
      \<and> mint_history P cfg role t evs (Inl e)"
    by blast+
qed

text \<open>A refusal leaves no cached token, or the deletion of the token failed.\<close>

lemma issueToken_refusal:
  assumes "issueToken P n cfg role s = (r, s')" "key_cache_ok P s" "added trace clk evs s s'"
    and "posts evs \<noteq> []" "refused (snd (snd (last (posts evs))))"
  shows "\<exists>e. r = Inl e \<and> (\<not> isTransientMintError e \<and> tokenAt P view s' n = None
    \<or> (\<exists>s1 s2. deleteCachedToken P n s1 = (Inl e, s2) \<and> s' = unlock P (LockForKey P n) s2))"
proof -
  have same: "evs' = evs" if "added trace clk evs' s s'" for evs'
    using that assms(3) by (simp add: added_def adds_def)
  from assms(1) show ?thesis
  proof (cases rule: issueToken_cases)
    case (locked s1 s2)
    let ?ix = "LockForKey P n"
    have wrap: "evs = Locked ?ix # mid @ [Unlocked ?ix]" if "added trace clk mid s1 s2" for mid
      using same added_trans [OF added_trans [OF locked(1) that] unlock_spec(1)] locked(5) by fastforce
    have tok: "tokenAt P view s' = tokenAt P view s2" using same_store_contents(3) [OF unlock_spec(3)] locked(5) by simp
    from locked(4) key_cache_ok_same [OF assms(2) locked(2)] show ?thesis
    proof (cases rule: issueUnderLock_cases)
      case (tried t0 t mid m)
      have "posts mid = posts evs" using wrap [OF tried(1)] by simp
      then obtain e where e: "m = Inl e" "\<not> isTransientMintError e"
        using mint_history_refused [OF tried(2)] assms(4,5) by metis
      from tried(7) show ?thesis
        by cases (use e tok locked(5) in auto)
    qed (use wrap [of "[]"] assms(4) in simp_all)
  qed (use same [of "[]"] assms(4) in simp_all)
qed

lemma pathCredsRead_cases:
  assumes "pathCredsRead P data s = (r, s')" and n: "n = GetString data ''name''"
  obtains (stopped) "same_store view s s'" "added trace clk [] s s'" "rsaKeyCache s' = rsaKeyCache s"
      "unknown P view s n r"
  | (issued) role cfg s1 ir where "roleAt P view s n = Some role" "configAt P view s (Config role) = Some cfg"
      "same_store view s s1" "added trace clk [] s s1" "rsaKeyCache s1 = rsaKeyCache s"
      "issueToken P n cfg role s1 = (ir, s')"
      "r = (case ir of Inl e \<Rightarrow> Inl e | Inr (ct, cached) \<Rightarrow>
         Inr (Some (SecretResponse (credsData role ct cached) (credsSecret n role))))"
proof -
  obtain ro s0 where ro: "getRole P n s = (ro, s0)" by fastforce
  note rs = getRole_spec [OF ro] and rq = getRole_quiet [OF ro]
  show thesis
  proof (cases "\<exists>role. ro = Inr (Some role)")
    case False
    then have "unknown P view s n r" "s' = s0"
      using assms ro rs(4) by (auto simp: pathCredsRead_def Let_def unknown_def split: sum.splits option.splits)
    then show thesis using rs(1,2) rq stopped by simp
  next
    case True
    then obtain role where role: "ro = Inr (Some role)" by blast
    obtain c s1 where c: "getConfig P (Config role) s0 = (c, s1)" by fastforce
    note cs = getConfig_spec [OF c] and cq = getConfig_quiet [OF c]
    have s1: "same_store view s s1" "added trace clk [] s s1" "rsaKeyCache s1 = rsaKeyCache s"
      using same_store_trans [OF rs(1) cs(1)] added_quiet_left [OF rq cq] rs(2) cs(2) by auto
    show thesis
    proof (cases "\<exists>cfg. c = Inr (Some cfg)")
      case False
      then have "unknown P view s n r" "s' = s1"
        using assms ro role c rs(4) cs(4) same_store_contents(1) [OF rs(1)]
        by (auto simp: pathCredsRead_def Let_def unknown_def split: sum.splits option.splits)
      then show thesis using s1 stopped by simp
    next
      case True
      then obtain cfg where cfg: "c = Inr (Some cfg)" by blast
      then have data: "roleAt P view s n = Some role" "configAt P view s (Config role) = Some cfg"
        using rs(4) role cs(4) same_store_contents(1) [OF rs(1)] by auto
      obtain ir s2 where ir: "issueToken P n cfg role s1 = (ir, s2)" by fastforce
      have "s' = s2" "r = (case ir of Inl e \<Rightarrow> Inl e | Inr (ct, cached) \<Rightarrow>
          Inr (Some (SecretResponse (credsData role ct cached) (credsSecret n role))))"
        using assms ro role c cfg ir by (auto simp: pathCredsRead_def Let_def split: sum.splits)
      with ir show thesis using issued [OF data s1] by simp
    qed
  qed
qed

end

end
