(* ===== verification/Lease.thy ===== *)
theory Lease
  imports Creds
begin

text \<open>
  Ending the life of a token: the revocation at Salesforce of \<^verbatim>\<open>cache.go\<close>, the rotation of
  \<^verbatim>\<open>path_rotate.go\<close> and the lease operations of \<^verbatim>\<open>secret_access_token.go\<close>.
\<close>

definition revokeCachedTokenAtSalesforce ::
  "('w, 'b, 'k) platform \<Rightarrow> string \<Rightarrow> salesforceRole option \<Rightarrow> ('w, 'k) engine \<Rightarrow> ('w, 'k) engine" where
  "revokeCachedTokenAtSalesforce P roleName orole s = (case orole of
      None \<Rightarrow> s
    | Some role \<Rightarrow>
      if \<not> RevokeTokens role then s
      else case getCachedToken P roleName s of
        (Inr (Some ct), s) \<Rightarrow>
          if ctAccessToken ct = [] then s
          else (case getConfig P (Config role) s of
              (Inr (Some cfg), s) \<Rightarrow>
                (case revokeToken P cfg (ctAccessToken ct) s of
                   (Inl err, s) \<Rightarrow> log (RevokeFailed roleName err) s
                 | (Inr _, s) \<Rightarrow> log (RevokedAtSalesforce roleName) s)
            | (_, s) \<Rightarrow> s)
      | (_, s) \<Rightarrow> s)"

text \<open>The part of a rotation that runs under the role's lock.\<close>

definition rotateUnderLock ::
  "('w, 'b, 'k) platform \<Rightarrow> string \<Rightarrow> salesforceConfig \<Rightarrow> salesforceRole \<Rightarrow> ('w, 'k) handler" where
  "rotateUnderLock P roleName cfg role s =
     (case deleteCachedToken P roleName (revokeCachedTokenAtSalesforce P roleName (Some role) s) of
        (Inl err, s) \<Rightarrow> (Inl err, s)
      | (Inr _, s) \<Rightarrow>
        (case mintAndCache P roleName cfg role s of
           (Inl err, s) \<Rightarrow> (Inl err, s)
         | (Inr ct, s) \<Rightarrow>
             (Inr (Some (DataResponse
                [''rotated'' \<mapsto> RBool True,
                 ''role'' \<mapsto> RString roleName,
                 ''expires_at'' \<mapsto> RString (Format_RFC3339 (ExpiresAt ct))])),
              log (RotatedToken roleName (ExpiresAt ct)) s)))"

definition pathRotate :: "('w, 'b, 'k) platform \<Rightarrow> field_data \<Rightarrow> ('w, 'k) handler" where
  "pathRotate P data s =
     (let roleName = GetString data ''name''
      in case getRole P roleName s of
        (Inl err, s) \<Rightarrow> (Inl err, s)
      | (Inr None, s) \<Rightarrow> (Inr (Some (ErrorResponse (RoleDoesNotExist roleName))), s)
      | (Inr (Some role), s) \<Rightarrow>
        (case getConfig P (Config role) s of
           (Inl err, s) \<Rightarrow> (Inl err, s)
         | (Inr None, s) \<Rightarrow>
             (Inr (Some (ErrorResponse (ConfigForRoleDoesNotExist (Config role) roleName))), s)
         | (Inr (Some cfg), s) \<Rightarrow>
           (case rotateUnderLock P roleName cfg role (lock P (LockForKey P roleName) s) of
              (r, s) \<Rightarrow> (r, unlock P (LockForKey P roleName) s))))"

definition secretAccessTokenRevoke :: "('w, 'b, 'k) platform \<Rightarrow> secret \<Rightarrow> ('w, 'k) handler" where
  "secretAccessTokenRevoke P sec s = (case InternalData sec ''role'' of
      Some (RString role) \<Rightarrow>
        if role = [] then (Inr None, s)
        else
          (case (case getRole P role s of
                   (Inr roleObj, s) \<Rightarrow> revokeCachedTokenAtSalesforce P role roleObj s
                 | (Inl _, s) \<Rightarrow> s) of
             s \<Rightarrow>
               (case deleteCachedToken P role s of
                  (Inl err, s) \<Rightarrow> (Inl err, s)
                | (Inr _, s) \<Rightarrow> (Inr None, log (LeaseRevoked role) s)))
    | _ \<Rightarrow> (Inr None, s))"

definition secretAccessTokenRenew :: "('w, 'b, 'k) platform \<Rightarrow> secret \<Rightarrow> ('w, 'k) handler" where
  "secretAccessTokenRenew P sec s = (case InternalData sec ''role'' of
      None \<Rightarrow> (Inr None, s)
    | Some roleRaw \<Rightarrow>
      (case getRole P (case roleRaw of RString n \<Rightarrow> n | _ \<Rightarrow> []) s of
         (Inl err, s) \<Rightarrow> (Inl err, s)
       | (Inr None, s) \<Rightarrow> (Inr (Some (SecretResponse Map.empty sec)), s)
       | (Inr (Some role), s) \<Rightarrow>
           (Inr (Some (SecretResponse Map.empty
              (sec\<lparr>secretTTL := TTL role, secretMaxTTL := MaxTTL role\<rparr>))), s)))"

section \<open>What the operations do\<close>

text \<open>
  A revocation is silent, or one request with the cached token to the revocation endpoint of
  the role's configuration.
\<close>

inductive revocation ::
  "('w, 'b, 'k) platform \<Rightarrow> ('w, 'b) view \<Rightarrow> string \<Rightarrow> salesforceRole option \<Rightarrow> ('w, 'k) engine \<Rightarrow> event list \<Rightarrow> bool"
  for P view n orole s where
  silent: "revocation P view n orole s []"
| sent: "orole = Some role \<Longrightarrow> RevokeTokens role \<Longrightarrow> tokenAt P view s n = Some ct \<Longrightarrow> ctAccessToken ct \<noteq> [] \<Longrightarrow>
    configAt P view s (Config role) = Some cfg \<Longrightarrow> httpClientFor P cfg = Inr cl \<Longrightarrow>
    newPost (revokeURL cfg) [(''token'', ctAccessToken ct)] revokeHeaders = Inr rq \<Longrightarrow>
    revocation P view n orole s [Sent cl rq rep]"

text \<open>
  The ways a rotation of role \<open>n\<close> can end once the old token is deleted: the cache holds the new
  token, or nothing, or (when the storage fails on the write) either.
\<close>

inductive rotated ::
  "('w, 'b, 'k) platform \<Rightarrow> ('w, 'b) view \<Rightarrow> string \<Rightarrow> salesforceRole \<Rightarrow> Time \<Rightarrow> ('w, 'k) engine \<Rightarrow>
     gerror + tokenResult \<Rightarrow> gerror + response option \<Rightarrow> bool"
  for P view n role t0 s' where
  renewed: "AccessToken res \<noteq> [] \<Longrightarrow> tokenAt P view s' n = Some (mintedToken t0 role res) \<Longrightarrow>
    rotated P view n role t0 s' (Inr res) (Inr (Some (DataResponse
      [''rotated'' \<mapsto> RBool True, ''role'' \<mapsto> RString n,
       ''expires_at'' \<mapsto> RString (Format_RFC3339 (ExpiresAt (mintedToken t0 role res)))])))"
| unminted: "tokenAt P view s' n = None \<Longrightarrow> rotated P view n role t0 s' (Inl e) (Inl e)"
| unstored: "tokenAt P view s' n \<in> {None, Some (mintedToken t0 role res)} \<Longrightarrow> foreign e \<Longrightarrow>
    rotated P view n role t0 s' (Inr res) (Inl e)"

lemma revokeCached_cases:
  assumes "revokeCachedTokenAtSalesforce P n orole s = s'"
  obtains (skip) "s' = s"
  | (uncached) g where "getCachedToken P n s = (g, s')"
  | (unconfigured) g s1 cn c where "getCachedToken P n s = (g, s1)" "getConfig P cn s1 = (c, s')"
  | (called) role ct s1 cfg s2 r s3 e where "orole = Some role" "RevokeTokens role"
      "getCachedToken P n s = (Inr (Some ct), s1)" "ctAccessToken ct \<noteq> []"
      "getConfig P (Config role) s1 = (Inr (Some cfg), s2)"
      "revokeToken P cfg (ctAccessToken ct) s2 = (r, s3)" "s' = log e s3"
proof (cases "\<exists>role. orole = Some role \<and> RevokeTokens role")
  case False
  then show thesis using assms skip by (auto simp: revokeCachedTokenAtSalesforce_def split: option.splits if_splits)
next
  case True
  then obtain role where role: "orole = Some role" "RevokeTokens role" by blast
  obtain g s1 where g: "getCachedToken P n s = (g, s1)" by fastforce
  show thesis
  proof (cases "\<exists>ct. g = Inr (Some ct) \<and> ctAccessToken ct \<noteq> []")
    case False
    with role g assms uncached show thesis
      by (auto simp: revokeCachedTokenAtSalesforce_def split: sum.splits option.splits if_splits)
  next
    case True
    then obtain ct where ct: "g = Inr (Some ct)" "ctAccessToken ct \<noteq> []" by blast
    obtain c s2 where c: "getConfig P (Config role) s1 = (c, s2)" by fastforce
    show thesis
    proof (cases "\<exists>cfg. c = Inr (Some cfg)")
      case False
      then have "s' = s2"
        using assms role g ct c
        by (auto simp: revokeCachedTokenAtSalesforce_def split: sum.splits option.splits)
      then show thesis using unconfigured [OF g] c by simp
    next
      case True
      then show thesis
        using assms role g ct c called [OF role g [unfolded ct(1)] ct(2)]
        by (auto simp: revokeCachedTokenAtSalesforce_def split: sum.splits prod.splits)
    qed
  qed
qed

context observed
begin

lemma revokeCached_spec:
  assumes "revokeCachedTokenAtSalesforce P n orole s = s'"
  shows "same_store view s s' \<and> rsaKeyCache s' = rsaKeyCache s
    \<and> (\<exists>evs. added trace clk evs s s' \<and> revocation P view n orole s evs)"
  using assms
proof (cases rule: revokeCached_cases)
  case skip
  then show ?thesis using revocation.silent added_refl by fastforce
next
  case (uncached g)
  then show ?thesis
    using getCachedToken_spec(1,2) [OF uncached] getCachedToken_quiet [OF uncached] revocation.silent by blast
next
  case (unconfigured g s1 cn c)
  note g = getCachedToken_spec [OF unconfigured(1)] getCachedToken_quiet [OF unconfigured(1)]
  note c = getConfig_spec [OF unconfigured(2)] getConfig_quiet [OF unconfigured(2)]
  show ?thesis
    using same_store_trans [OF g(1) c(1)] g(2) c(2) added_quiet_left [OF g(5) c(5)]
      revocation.silent [of P view n orole s] by (intro conjI exI [of _ "[]"]) simp_all
next
  case (called role ct s1 cfg s2 r s3 e)
  note g = getCachedToken_spec [OF called(3)] getCachedToken_quiet [OF called(3)]
  note c = getConfig_spec [OF called(5)] getConfig_quiet [OF called(5)]
  note v = revokeToken_frame [OF called(6)]
  have s2: "same_store view s s2" "added trace clk [] s s2" "rsaKeyCache s2 = rsaKeyCache s"
    using same_store_trans [OF g(1) c(1)] added_quiet_left [OF g(5) c(5)] g(2) c(2) by auto
  have data: "tokenAt P view s n = Some ct" "configAt P view s (Config role) = Some cfg"
    using g(4) c(4) same_store_contents(1) [OF g(1)] by auto
  have "\<exists>evs. added trace clk evs s2 s3 \<and> revocation P view n orole s evs"
    using called(6)
  proof (cases rule: revokeToken_run)
    case unsent
    then show ?thesis using revocation.silent added_refl by metis
  next
    case (sent cl rq rep)
    then show ?thesis using revocation.sent [OF called(1,2) data(1) called(4) data(2)] by blast
  qed
  then show ?thesis
    using v s2 called(7) same_store_trans added_quiet_left by fastforce
qed

text \<open>With a storage that can be read, the revocation of a cached token is attempted.\<close>

lemma getters_read:
  assumes "\<forall>k w. isOk (fst (Storage_Get P k w))"
  shows "roleAt P view s n = Some role \<Longrightarrow> \<exists>s1. getRole P n s = (Inr (Some role), s1)"
    and "configAt P view s n = Some cfg \<Longrightarrow> \<exists>s1. getConfig P n s = (Inr (Some cfg), s1)"
    and "tokenAt P view s n = Some ct \<Longrightarrow> \<exists>s1. getCachedToken P n s = (Inr (Some ct), s1)"
proof -
  have get: "\<exists>s1. st_Get P k s = (Inr (view (ext s) k), s1)" for k s
  proof -
    obtain e w where "Storage_Get P k (ext s) = (Inr e, w)"
      using assms by (metis isOk_iff surjective_pairing)
    then show ?thesis using get_value by (fastforce simp: st_Get_def)
  qed
  show "roleAt P view s n = Some role \<Longrightarrow> \<exists>s1. getRole P n s = (Inr (Some role), s1)"
    using get [of "rolesStoragePrefix @ n" s] by (auto simp: roleAt_def getRole_def bind_eq_Some_conv split: sum.splits)
  show "configAt P view s n = Some cfg \<Longrightarrow> \<exists>s1. getConfig P n s = (Inr (Some cfg), s1)"
    using get [of "configStoragePrefix @ n" s] by (auto simp: configAt_def getConfig_def bind_eq_Some_conv split: sum.splits)
  show "tokenAt P view s n = Some ct \<Longrightarrow> \<exists>s1. getCachedToken P n s = (Inr (Some ct), s1)"
    using get [of "cacheStoragePrefix @ n" s] by (auto simp: tokenAt_def getCachedToken_def bind_eq_Some_conv split: sum.splits)
qed

lemma revokeCached_sends:
  assumes "\<forall>k w. isOk (fst (Storage_Get P k w))" "RevokeTokens role"
    and "configAt P view s (Config role) = Some cfg" "tokenAt P view s n = Some ct" "ctAccessToken ct \<noteq> []"
    and "httpClientFor P cfg = Inr cl" "newPost (revokeURL cfg) [(''token'', ctAccessToken ct)] revokeHeaders = Inr rq"
  shows "\<exists>rep. added trace clk [Sent cl rq rep] s (revokeCachedTokenAtSalesforce P n (Some role) s)"
proof -
  obtain s1 where g: "getCachedToken P n s = (Inr (Some ct), s1)" using getters_read(3) [OF assms(1,4)] by blast
  have "configAt P view s1 (Config role) = Some cfg"
    using assms(3) same_store_contents(1) [OF getCachedToken_spec(1) [OF g]] by simp
  then obtain s2 where c: "getConfig P (Config role) s1 = (Inr (Some cfg), s2)" using getters_read(2) [OF assms(1)] by blast
  obtain v s3 where v: "revokeToken P cfg (ctAccessToken ct) s2 = (v, s3)" by fastforce
  obtain rep s4 where h: "do_http P cl rq s2 = (rep, s4)" by fastforce
  have "s3 = s4" using v assms(5-7) h by (auto simp: revokeToken_def split: sum.splits if_splits)
  then have "added trace clk [Sent cl rq rep] s2 s3" using do_http_adds(1) [OF h] by simp
  then have "added trace clk [Sent cl rq rep] s s3"
    using added_quiet_left [OF getCachedToken_quiet [OF g]] added_quiet_left [OF getConfig_quiet [OF c]] by blast
  then show ?thesis
    using assms(2,5) g c v by (cases v) (auto simp: revokeCachedTokenAtSalesforce_def)
qed

lemma rotateUnderLock_spec:
  assumes "rotateUnderLock P n cfg role s = (r, s')" "key_cache_ok P s"
  obtains (undeleted) e evs where "r = Inl e" "added trace clk evs s s'" "revocation P view n (Some role) s evs"
      "touches_token P view n s s'" "key_cache_ok P s'"
  | (deleted) evs evs' t0 t m where "added trace clk (evs @ evs') s s'" "revocation P view n (Some role) s evs"
      "mint_history P cfg role t evs' m" "clk (ext s) \<le> t0" "t0 \<le> clk (ext s')"
      "touches_token P view n s s'" "key_cache_ok P s'" "rotated P view n role t0 s' m r"
proof -
  define s0 where "s0 = revokeCachedTokenAtSalesforce P n (Some role) s"
  from revokeCached_spec [OF s0_def [symmetric]] obtain evs where
    s0: "same_store view s s0" "rsaKeyCache s0 = rsaKeyCache s" "added trace clk evs s s0"
      "revocation P view n (Some role) s evs" by blast
  obtain d s1 where d: "deleteCachedToken P n s0 = (d, s1)" by fastforce
  note ds = deleteCachedToken_spec [OF d] and dq = deleteCachedToken_quiet [OF d]
  have s1: "added trace clk evs s s1" "touches_token P view n s s1" "key_cache_ok P s1"
    using added_quiet_right [OF s0(3) dq] touches_token_same [OF s0(1)] drops_touches [OF ds(1)]
      touches_token_trans key_cache_ok_same [OF assms(2)] ds(2) s0(2) by simp_all blast
  show thesis
  proof (cases d)
    case (Inl e)
    with assms(1) d have "r = Inl e" "s' = s1" unfolding s0_def by (simp_all add: rotateUnderLock_def)
    with undeleted s1 s0(4) show thesis by blast
  next
    case (Inr u)
    then have gone: "tokenAt P view s1 n = None" using ds(4) by simp
    obtain mr s2 where mr: "mintAndCache P n cfg role s1 = (mr, s2)" by fastforce
    note spec = mintAndCache_spec [OF mr]
    obtain t0 t evs' m where h: "added trace clk evs' s1 s2" "mint_history P cfg role t evs' m"
      "clk (ext s1) \<le> t0" "t0 \<le> t" "t \<le> clk (ext s2)"
      and ok: "\<forall>ct. mr = Inr ct \<longrightarrow>
        (\<exists>res. m = Inr res \<and> ct = mintedToken t0 role res \<and> result_text res \<and> AccessToken res \<noteq> [])"
      and err: "\<forall>e. mr = Inl e \<longrightarrow> m = Inl e \<and> tokenAt P view s2 n = tokenAt P view s1 n
        \<or> foreign e \<and> (\<exists>res. m = Inr res \<and> tokenAt P view s2 n \<in> {tokenAt P view s1 n, Some (mintedToken t0 role res)})"
      using mr s1(3) by (rule mintAndCache_history)
    have "rotated P view n role t0 s' m r \<and> (\<exists>e. s' = log e s2 \<or> s' = s2)"
    proof (cases mr)
      case (Inl e)
      then have "r = Inl e" "s' = s2"
        using assms(1) d \<open>d = Inr u\<close> mr unfolding s0_def by (simp_all add: rotateUnderLock_def)
      then show ?thesis using err Inl gone by (auto intro: rotated.unminted rotated.unstored)
    next
      case (Inr ct)
      then obtain res where "m = Inr res" "ct = mintedToken t0 role res" "AccessToken res \<noteq> []"
        using ok by blast
      then show ?thesis
        using assms(1) d \<open>d = Inr u\<close> mr Inr spec(3) [OF Inr] unfolding s0_def
        by (auto simp: rotateUnderLock_def intro!: rotated.renewed)
    qed
    then obtain e where rot: "rotated P view n role t0 s' m r" and s': "s' = log e s2 \<or> s' = s2" by blast
    have "touches_token P view n s s2" "key_cache_ok P s2" "added trace clk (evs @ evs') s s2"
      using touches_token_trans [OF s1(2) spec(1)] spec(2) [OF s1(3)] added_trans [OF s1(1) h(1)] .
    then show thesis
      using deleted [OF _ s0(4) h(2) _ _ _ _ rot] s' h(3-5) added_clock [OF s1(1)] by auto
  qed
qed

lemma pathRotate_cases:
  assumes "pathRotate P data s = (r, s')" and n: "n = GetString data ''name''"
  obtains (stopped) "same_store view s s'" "added trace clk [] s s'" "rsaKeyCache s' = rsaKeyCache s"
      "unknown P view s n r"
  | (locked) role cfg s1 s2 where "roleAt P view s n = Some role" "configAt P view s (Config role) = Some cfg"
      "same_store view s s1" "added trace clk [] s s1" "rsaKeyCache s1 = rsaKeyCache s"
      "rotateUnderLock P n cfg role (lock P (LockForKey P n) s1) = (r, s2)"
      "s' = unlock P (LockForKey P n) s2"
proof -
  obtain ro s0 where ro: "getRole P n s = (ro, s0)" by fastforce
  note rs = getRole_spec [OF ro] and rq = getRole_quiet [OF ro]
  show thesis
  proof (cases "\<exists>role. ro = Inr (Some role)")
    case False
    then have "unknown P view s n r" "s' = s0"
      using assms ro rs(4) by (auto simp: pathRotate_def Let_def unknown_def split: sum.splits option.splits)
    then show thesis using rs(1,2) rq stopped by simp
  next
    case True
    then obtain role where role: "ro = Inr (Some role)" by blast
    obtain c s1 where c: "getConfig P (Config role) s0 = (c, s1)" by fastforce
    note cs = getConfig_spec [OF c] and cq = getConfig_quiet [OF c]
    have s1: "same_store view s s1" "added trace clk [] s s1" "rsaKeyCache s1 = rsaKeyCache s"
      using same_store_trans [OF rs(1) cs(1)] added_quiet_left [OF rq cq] rs(2) cs(2) by auto
    show thesis
    proof (cases "\<exists>cfg. c = Inr (Some cfg)")
      case False
      then have "unknown P view s n r" "s' = s1"
        using assms ro role c rs(4) cs(4) same_store_contents(1) [OF rs(1)]
        by (auto simp: pathRotate_def Let_def unknown_def split: sum.splits option.splits)
      then show thesis using s1 stopped by simp
    next
      case True
      then obtain cfg where cfg: "c = Inr (Some cfg)" by blast
      then have "roleAt P view s n = Some role" "configAt P view s (Config role) = Some cfg"
        using rs(4) role cs(4) same_store_contents(1) [OF rs(1)] by auto
      then show thesis
        using assms ro role c cfg s1 locked
        by (auto simp: pathRotate_def Let_def split: prod.splits)
    qed
  qed
qed

lemma secretAccessTokenRevoke_spec:
  assumes "secretAccessTokenRevoke P sec s = (r, s')" "InternalData sec ''role'' = Some (RString n)" "n \<noteq> []"
  shows "touches_token P view n s s'" "rsaKeyCache s' = rsaKeyCache s"
    and "\<exists>evs. added trace clk evs s s' \<and> revocation P view n (roleAt P view s n) s evs"
    and "isOk r \<Longrightarrow> r = Inr None \<and> tokenAt P view s' n = None"
    and "r = Inl e \<Longrightarrow> \<exists>s1. deleteCachedToken P n s1 = (Inl e, s')"
    and "drops_tokens view {n} s s'"
proof -
  obtain ro s0 where ro: "getRole P n s = (ro, s0)" by fastforce
  note rs = getRole_spec [OF ro] and rq = getRole_quiet [OF ro]
  define s1 where "s1 = (case ro of Inl _ \<Rightarrow> s0 | Inr orole \<Rightarrow> revokeCachedTokenAtSalesforce P n orole s0)"
  obtain d s2 where d: "deleteCachedToken P n s1 = (d, s2)" by fastforce
  note ds = deleteCachedToken_spec [OF d] and dq = deleteCachedToken_quiet [OF d]
  have fin: "(\<exists>er. d = Inl er \<and> r = Inl er \<and> s' = s2) \<or> isOk d \<and> r = Inr None \<and> s' = log (LeaseRevoked n) s2"
    using assms ro d by (cases d; cases ro) (auto simp: secretAccessTokenRevoke_def s1_def)
  have s1: "same_store view s0 s1 \<and> rsaKeyCache s1 = rsaKeyCache s0
      \<and> (\<exists>evs. added trace clk evs s0 s1 \<and> revocation P view n (roleAt P view s n) s0 evs)"
  proof (cases ro)
    case (Inl e)
    then show ?thesis
      by (intro conjI exI [of _ "[]"]) (simp_all add: s1_def revocation.silent)
  next
    case (Inr orole)
    then have "orole = roleAt P view s n" using rs(4) by blast
    then show ?thesis using Inr revokeCached_spec [of n orole s0 s1] unfolding s1_def by simp
  qed
  then obtain evs where evs: "added trace clk evs s0 s1" "revocation P view n (roleAt P view s n) s0 evs" by blast
  have "revocation P view n (roleAt P view s n) s evs"
    using evs(2) same_store_contents [OF rs(1)] by (cases rule: revocation.cases) (auto intro: revocation.intros)
  moreover have "added trace clk evs s s2" using added_quiet_left [OF rq added_quiet_right [OF evs(1) dq]] .
  ultimately show "\<exists>evs. added trace clk evs s s' \<and> revocation P view n (roleAt P view s n) s evs"
    using fin by auto
  have "drops_tokens view {n} s s2"
    using drops_tokens_trans [OF drops_tokens_refl [OF same_store_trans [OF rs(1) conjunct1 [OF s1]]] ds(1)] .
  then show drops: "drops_tokens view {n} s s'" using fin by (auto simp: drops_tokens_def log_def)
  show "touches_token P view n s s'" using drops_touches [OF drops] .
  show "rsaKeyCache s' = rsaKeyCache s" using fin s1 rs(2) ds(2) by auto
  show "isOk r \<Longrightarrow> r = Inr None \<and> tokenAt P view s' n = None" using fin ds(4) by auto
  show "r = Inl e \<Longrightarrow> \<exists>s1. deleteCachedToken P n s1 = (Inl e, s')" using fin d by auto
qed

lemma secretAccessTokenRevoke_sends:
  assumes "secretAccessTokenRevoke P sec s = (r, s')" "\<forall>k w. isOk (fst (Storage_Get P k w))"
    and "InternalData sec ''role'' = Some (RString n)" "n \<noteq> []"
    and "roleAt P view s n = Some role" "RevokeTokens role" "configAt P view s (Config role) = Some cfg"
    and "tokenAt P view s n = Some ct" "ctAccessToken ct \<noteq> []"
    and "httpClientFor P cfg = Inr cl" "newPost (revokeURL cfg) [(''token'', ctAccessToken ct)] revokeHeaders = Inr rq"
  shows "(\<exists>rep. added trace clk [Sent cl rq rep] s s')
    \<and> (r = Inr None \<and> tokenAt P view s' n = None \<or> (\<exists>e s1. r = Inl e \<and> deleteCachedToken P n s1 = (Inl e, s')))"
proof -
  obtain s0 where g: "getRole P n s = (Inr (Some role), s0)" using getters_read(1) [OF assms(2,5)] by blast
  note same = same_store_contents [OF getRole_spec(1) [OF g]]
  let ?s1 = "revokeCachedTokenAtSalesforce P n (Some role) s0"
  obtain d s2 where d: "deleteCachedToken P n ?s1 = (d, s2)" by fastforce
  obtain rep where "added trace clk [Sent cl rq rep] s0 ?s1"
    using revokeCached_sends [OF assms(2,6)] assms(7-11) same by metis
  then have "added trace clk [Sent cl rq rep] s s2"
    using added_quiet_left [OF getRole_quiet [OF g]] added_quiet_right [OF _ deleteCachedToken_quiet [OF d]] by blast
  moreover have "s' = s2 \<or> s' = log (LeaseRevoked n) s2"
    using assms(1,3,4) g d by (cases d) (auto simp: secretAccessTokenRevoke_def)
  ultimately have "added trace clk [Sent cl rq rep] s s'" by auto
  then show ?thesis
    using secretAccessTokenRevoke_spec(4,5) [OF assms(1,3,4)] by (cases r) auto
qed

lemma secretAccessTokenRenew_spec:
  assumes "secretAccessTokenRenew P sec s = (r, s')"
  shows "same_store view s s'" "added trace clk [] s s'" "rsaKeyCache s' = rsaKeyCache s"
    and "InternalData sec ''role'' = Some (RString n) \<Longrightarrow> isOk r \<Longrightarrow>
      r = Inr (Some (SecretResponse Map.empty (case roleAt P view s n of
          None \<Rightarrow> sec
        | Some role \<Rightarrow> sec\<lparr>secretTTL := TTL role, secretMaxTTL := MaxTTL role\<rparr>)))"
  using assms getRole_spec getRole_quiet
  by (fastforce simp: secretAccessTokenRenew_def split: option.splits prod.splits sum.splits rvalue.splits)+

end

end
