(* ===== verification/Backend.thy ===== *)
theory Backend
  imports Lease
begin

text \<open>
  \<^verbatim>\<open>backend.go\<close> and \<^verbatim>\<open>path_info.go\<close>: the table of paths and secrets the plugin registers, the
  dispatch of a request over it, and the transition system of the running plugin. Matching
  a path against \<^verbatim>\<open>framework.GenericNameRegex\<close> is the platform's \<open>GenericName\<close>; the framework
  anchors every pattern at both ends.
\<close>

datatype operation = CreateOperation | UpdateOperation | ReadOperation | DeleteOperation | ListOperation

text \<open>A fixed path, \<^verbatim>\<open>prefix<name>suffix\<close>, and \<^verbatim>\<open>prefix/?$\<close>.\<close>

datatype pattern = PathExact string | PathNamed string string | PathListing string

record ('w, 'k) path =
  Pattern :: pattern
  Fields :: "(string \<times> field_schema) list"
  Operations :: "(operation \<times> (field_data \<Rightarrow> ('w, 'k) handler)) list"

record ('w, 'k) framework_secret =
  SecretType :: string
  SecretFields :: "(string \<times> field_schema) list"
  Revoke :: "secret \<Rightarrow> ('w, 'k) handler"
  Renew :: "secret \<Rightarrow> ('w, 'k) handler"

record ('w, 'k) backend =
  Paths :: "('w, 'k) path list"
  Secrets :: "('w, 'k) framework_secret list"

section \<open>The registered paths\<close>

definition pathInfoRead :: "('w, 'k) handler" where
  "pathInfoRead s = (Inr (Some (DataResponse
     [''plugin'' \<mapsto> RString ''vault-plugin-secrets-salesforce'',
      ''flows'' \<mapsto> RStrings [''jwt_bearer'', ''client_credentials'']])), s)"

definition pathInfo :: "('w, 'k) path list" where
  "pathInfo = [\<lparr>Pattern = PathExact ''info'', Fields = [], Operations = [(ReadOperation, \<lambda>_. pathInfoRead)]\<rparr>]"

definition pathConfig :: "('w, 'b, 'k) platform \<Rightarrow> ('w, 'k) path list" where
  "pathConfig P =
     [\<lparr>Pattern = PathNamed ''config/'' [], Fields = configFields, Operations =
         [(CreateOperation, pathConfigWrite P), (UpdateOperation, pathConfigWrite P),
          (ReadOperation, pathConfigRead P), (DeleteOperation, pathConfigDelete P)]\<rparr>,
      \<lparr>Pattern = PathListing ''config'', Fields = [], Operations = [(ListOperation, \<lambda>_. pathConfigList P)]\<rparr>]"

definition pathRoles :: "('w, 'b, 'k) platform \<Rightarrow> ('w, 'k) path list" where
  "pathRoles P =
     [\<lparr>Pattern = PathNamed ''roles/'' [], Fields = roleFields, Operations =
         [(CreateOperation, pathRoleWrite P), (UpdateOperation, pathRoleWrite P),
          (ReadOperation, pathRoleRead P), (DeleteOperation, pathRoleDelete P)]\<rparr>,
      \<lparr>Pattern = PathListing ''roles'', Fields = [], Operations = [(ListOperation, \<lambda>_. pathRoleList P)]\<rparr>]"

definition nameField :: "(string \<times> field_schema) list" where
  "nameField = [(''name'', \<lparr>field_type_of = TypeString, field_default = None\<rparr>)]"

definition pathCreds :: "('w, 'b, 'k) platform \<Rightarrow> ('w, 'k) path list" where
  "pathCreds P =
     [\<lparr>Pattern = PathNamed ''creds/'' [], Fields = nameField, Operations = [(ReadOperation, pathCredsRead P)]\<rparr>,
      \<lparr>Pattern = PathNamed ''token/'' [], Fields = nameField, Operations = [(ReadOperation, pathCredsRead P)]\<rparr>]"

definition pathRotatePaths :: "('w, 'b, 'k) platform \<Rightarrow> ('w, 'k) path list" where
  "pathRotatePaths P =
     [\<lparr>Pattern = PathNamed ''roles/'' ''/rotate'', Fields = nameField, Operations = [(UpdateOperation, pathRotate P)]\<rparr>]"

definition secretAccessToken :: "('w, 'b, 'k) platform \<Rightarrow> ('w, 'k) framework_secret" where
  "secretAccessToken P =
     \<lparr>SecretType = secretAccessTokenType,
      SecretFields = [(''access_token'', \<lparr>field_type_of = TypeString, field_default = None\<rparr>),
        (''instance_url'', \<lparr>field_type_of = TypeString, field_default = None\<rparr>)],
      Revoke = secretAccessTokenRevoke P, Renew = secretAccessTokenRenew P\<rparr>"

definition newBackend :: "('w, 'b, 'k) platform \<Rightarrow> ('w, 'k) backend" where
  "newBackend P =
     \<lparr>Paths = concat [pathInfo, pathConfig P, pathRoles P, pathCreds P, pathRotatePaths P],
      Secrets = [secretAccessToken P]\<rparr>"

lemmas path_table_defs [path_tables] = newBackend_def pathInfo_def pathConfig_def pathRoles_def pathCreds_def
  pathRotatePaths_def

section \<open>Dispatch\<close>

text \<open>The name a path captures when it matches, empty where the pattern has none.\<close>

definition match_path :: "('w, 'b, 'k) platform \<Rightarrow> pattern \<Rightarrow> string \<Rightarrow> string option" where
  "match_path P pat path = (case pat of
      PathExact p \<Rightarrow> if path = p then Some [] else None
    | PathNamed pre suf \<Rightarrow>
        (let name = drop (length pre) (take (length path - length suf) path)
         in if path = pre @ name @ suf \<and> GenericName P name then Some name else None)
    | PathListing p \<Rightarrow> if path = p \<or> path = p @ ''/'' then Some [] else None)"

text \<open>The first path that matches handles the request; \<open>None\<close> is an unsupported one.\<close>

definition route ::
  "('w, 'b, 'k) platform \<Rightarrow> operation \<Rightarrow> string \<Rightarrow> (string \<times> (field_data \<Rightarrow> ('w, 'k) handler)) option" where
  "route P op path =
     (case find (\<lambda>p. match_path P (Pattern p) path \<noteq> None) (Paths (newBackend P)) of
        None \<Rightarrow> None
      | Some p \<Rightarrow> map_option (\<lambda>h. (the (match_path P (Pattern p) path), h)) (map_of (Operations p) op))"

text \<open>
  A request: its path, the operation and the field data, of which the field \<^verbatim>\<open>name\<close> is the
  captured name.
\<close>

definition with_name :: "string \<Rightarrow> field_data \<Rightarrow> field_data" where
  "with_name name data = data\<lparr>GetOkString := (GetOkString data)(''name'' \<mapsto> name),
     GetString := (GetString data)(''name'' := name)\<rparr>"

definition handleRequest ::
  "('w, 'b, 'k) platform \<Rightarrow> operation \<Rightarrow> string \<Rightarrow> field_data \<Rightarrow> ('w, 'k) engine \<Rightarrow>
     ((gerror + response option) \<times> ('w, 'k) engine) option" where
  "handleRequest P op path data s = (case route P op path of
      None \<Rightarrow> None
    | Some (name, h) \<Rightarrow> Some (h (with_name name data) s))"

definition handleRevoke ::
  "('w, 'b, 'k) platform \<Rightarrow> secret \<Rightarrow> ('w, 'k) engine \<Rightarrow>
     ((gerror + response option) \<times> ('w, 'k) engine) option" where
  "handleRevoke P sec s =
     map_option (\<lambda>d. Revoke d sec s) (find (\<lambda>d. SecretType d = secretType sec) (Secrets (newBackend P)))"

definition handleRenew ::
  "('w, 'b, 'k) platform \<Rightarrow> secret \<Rightarrow> ('w, 'k) engine \<Rightarrow>
     ((gerror + response option) \<times> ('w, 'k) engine) option" where
  "handleRenew P sec s =
     map_option (\<lambda>d. Renew d sec s) (find (\<lambda>d. SecretType d = secretType sec) (Secrets (newBackend P)))"

section \<open>The running plugin\<close>

text \<open>One request at a time; between requests the world outside moves on.\<close>

inductive step :: "('w, 'b, 'k) platform \<Rightarrow> ('w, 'b) view \<Rightarrow> ('w, 'k) engine \<Rightarrow> ('w, 'k) engine \<Rightarrow> bool"
  for P view where
  request: "data_text data \<Longrightarrow> handleRequest P op path data s = Some (r, s') \<Longrightarrow> step P view s s'"
| revoke: "handleRevoke P sec s = Some (r, s') \<Longrightarrow> step P view s s'"
| renew: "handleRenew P sec s = Some (r, s') \<Longrightarrow> step P view s s'"
| idle: "view w = view (ext s) \<Longrightarrow> step P view s (s\<lparr>ext := w\<rparr>)"

inductive reachable :: "('w, 'b, 'k) platform \<Rightarrow> ('w, 'b) view \<Rightarrow> ('w, 'k) engine \<Rightarrow> bool"
  for P view where
  mounted: "view (ext s) = Map.empty \<Longrightarrow> rsaKeyCache s = Map.empty \<Longrightarrow> reachable P view s"
| steps: "reachable P view s \<Longrightarrow> step P view s s' \<Longrightarrow> reachable P view s'"

section \<open>Invariants\<close>

definition tokens_ok :: "('w, 'b, 'k) platform \<Rightarrow> ('w, 'b) view \<Rightarrow> ('w, 'k) engine \<Rightarrow> bool" where
  "tokens_ok P view s \<longleftrightarrow> (\<forall>n ct. tokenAt P view s n = Some ct \<longrightarrow> ctAccessToken ct \<noteq> [])"

definition plugin_ok :: "('w, 'b, 'k) platform \<Rightarrow> ('w, 'b) view \<Rightarrow> ('w, 'k) engine \<Rightarrow> bool" where
  "plugin_ok P view s \<longleftrightarrow> configs_ok P view s \<and> roles_ok P view s \<and> tokens_ok P view s \<and> key_cache_ok P s"

text \<open>A role keeps its identity: the run-as user and the configuration it is bound to.\<close>

definition same_identity :: "salesforceRole option \<Rightarrow> salesforceRole option \<Rightarrow> bool" where
  "same_identity old new \<longleftrightarrow> (case (old, new) of
      (Some r, Some r') \<Rightarrow> Username r' = Username r \<and> Config r' = Config r
    | _ \<Rightarrow> True)"

lemma same_identity_refl [simp]: "same_identity r r" "same_identity r None"
  by (simp_all add: same_identity_def split: option.splits)

text \<open>What a request may do to the stored records.\<close>

definition good_step :: "('w, 'b, 'k) platform \<Rightarrow> ('w, 'b) view \<Rightarrow> ('w, 'k) engine \<Rightarrow> ('w, 'k) engine \<Rightarrow> bool" where
  "good_step P view s s' \<longleftrightarrow> (plugin_ok P view s \<longrightarrow>
     plugin_ok P view s' \<and> (\<forall>n. same_identity (roleAt P view s n) (roleAt P view s' n)))"

lemma good_step_same:
  assumes "same_store view s s'" "rsaKeyCache s' = rsaKeyCache s"
  shows "good_step P view s s'"
  using same_store_contents [OF assms(1), of P] key_cache_ok_same [OF _ assms(2), of P]
  by (simp add: good_step_def plugin_ok_def configs_ok_def roles_ok_def tokens_ok_def)

lemma touches_token_ok:
  assumes "touches_token P view n s s'" "tokens_ok P view s"
  shows "tokens_ok P view s'"
proof -
  have "ctAccessToken ct \<noteq> []" if "tokenAt P view s' m = Some ct" for m ct
    using assms that unfolding touches_token_def tokens_ok_def by (cases "m = n") auto
  then show ?thesis by (simp add: tokens_ok_def)
qed

lemma good_step_touches:
  assumes "touches_token P view n s s'" "key_cache_ok P s \<longrightarrow> key_cache_ok P s'"
  shows "good_step P view s s'"
  using assms touches_token_ok [OF assms(1)]
  by (auto simp: good_step_def plugin_ok_def configs_ok_def roles_ok_def touches_token_def)

lemma data_text_with_name:
  "data_text data \<Longrightarrow> ValidString name \<Longrightarrow> data_text (with_name name data)"
  by (auto simp: data_text_def with_name_def)

lemma with_name_name [simp]: "GetString (with_name name data) ''name'' = name"
  by (simp add: with_name_def)

lemma match_path_iff:
  "match_path P (PathExact p) path = Some name \<longleftrightarrow> path = p \<and> name = []"
  "match_path P (PathNamed pre suf) path = Some name \<longleftrightarrow> path = pre @ name @ suf \<and> GenericName P name"
  "match_path P (PathListing p) path = Some name \<longleftrightarrow> (path = p \<or> path = p @ ''/'') \<and> name = []"
  by (auto simp: match_path_def Let_def)

lemma route_path:
  assumes "route P op path = Some (name, h)"
  obtains p where "p \<in> set (Paths (newBackend P))" "match_path P (Pattern p) path = Some name"
    "map_of (Operations p) op = Some h"
proof -
  obtain p where p: "find (\<lambda>p. match_path P (Pattern p) path \<noteq> None) (Paths (newBackend P)) = Some p"
    and h: "map_of (Operations p) op = Some h" "name = the (match_path P (Pattern p) path)"
    using assms by (auto simp: route_def split: option.splits)
  from p have "p \<in> set (Paths (newBackend P))" "match_path P (Pattern p) path \<noteq> None"
    by (auto simp: find_Some_iff)
  with h that show thesis by auto
qed

lemma route_cases:
  assumes "route P op path = Some (name, h)"
  obtains (info) "h = (\<lambda>_. pathInfoRead)" "path = ''info''" "op = ReadOperation" "name = []"
  | (named) "GenericName P name"
      "path = ''config/'' @ name \<and> (op \<in> {CreateOperation, UpdateOperation} \<and> h = pathConfigWrite P
          \<or> op = ReadOperation \<and> h = pathConfigRead P \<or> op = DeleteOperation \<and> h = pathConfigDelete P)
       \<or> path = ''roles/'' @ name \<and> (op \<in> {CreateOperation, UpdateOperation} \<and> h = pathRoleWrite P
          \<or> op = ReadOperation \<and> h = pathRoleRead P \<or> op = DeleteOperation \<and> h = pathRoleDelete P)
       \<or> (path = ''creds/'' @ name \<or> path = ''token/'' @ name) \<and> op = ReadOperation \<and> h = pathCredsRead P
       \<or> path = ''roles/'' @ name @ ''/rotate'' \<and> op = UpdateOperation \<and> h = pathRotate P"
  | (listing) "op = ListOperation" "name = []"
      "path \<in> {''config'', ''config/''} \<and> h = (\<lambda>_. pathConfigList P)
       \<or> path \<in> {''roles'', ''roles/''} \<and> h = (\<lambda>_. pathRoleList P)"
proof -
  obtain p where p: "p \<in> set (Paths (newBackend P))" "match_path P (Pattern p) path = Some name"
    "map_of (Operations p) op = Some h"
    using assms by (rule route_path)
  then consider "p \<in> set pathInfo" | "p \<in> set (pathConfig P)" | "p \<in> set (pathRoles P)"
    | "p \<in> set (pathCreds P)" | "p \<in> set (pathRotatePaths P)"
    by (auto simp: newBackend_def)
  then show thesis
    by cases (use p(2,3) that in \<open>auto simp: path_tables match_path_iff split: if_splits\<close>)
qed

section \<open>Requests one at a time\<close>

text \<open>
  When requests run one at a time nothing happens during a wait for a lock. (Interleaved
  requests are the subject of \<open>Mint_Lock\<close>.)
\<close>

locale serial = observed P view trace clk
  for P :: "('w, 'b, 'k) platform" and view :: "'w \<Rightarrow> (string \<rightharpoonup> 'b)"
    and trace :: "'w \<Rightarrow> event list" and clk :: "'w \<Rightarrow> Time" +
  assumes lock_frame: "view (Lock P ix w) = view w"
begin

lemma lock_same: "same_store view s (lock P ix s)"
  by (simp add: same_store_def lock_def lock_frame)

lemma good_step_fewer:
  assumes "configs_ok P view s \<longrightarrow> configs_ok P view s'" "roles_ok P view s \<longrightarrow> roles_ok P view s'"
    "\<And>m. tokenAt P view s' m = tokenAt P view s m \<or> tokenAt P view s' m = None"
    "rsaKeyCache s' = rsaKeyCache s" "\<And>m. same_identity (roleAt P view s m) (roleAt P view s' m)"
  shows "good_step P view s s'"
proof -
  have "tokens_ok P view s \<longrightarrow> tokens_ok P view s'"
    using assms(3) unfolding tokens_ok_def by (metis option.distinct(1))
  then show ?thesis using assms key_cache_ok_same [OF _ assms(4), of P] by (auto simp: good_step_def plugin_ok_def)
qed

lemma good_config_write:
  assumes "pathConfigWrite P data s = (r, s')" "data_text data"
  shows "good_step P view s s'"
  using assms(1)
proof (cases rule: pathConfigWrite_cases)
  case (stored s1)
  note spec = storeConfig_spec [OF stored(5) writtenConfig_text [OF assms(2)], unfolded same_store_contents [OF stored(3)]]
  have tok: "tokenAt P view s' m = tokenAt P view s m \<or> tokenAt P view s' m = None" for m
    using spec(5) [where m = m] by (elim disjE conjE) simp_all
  show ?thesis
    using pathConfigWrite_configs_ok [OF assms] spec(4,8) stored(4)
    by (intro good_step_fewer [OF _ _ tok]) (simp_all add: roles_ok_def)
qed (simp_all add: good_step_same)

lemma good_config_delete:
  assumes "pathConfigDelete P data s = (r, s')"
  shows "good_step P view s s'"
proof -
  note spec = pathConfigDelete_spec [OF assms refl]
  have tok: "tokenAt P view s' m = tokenAt P view s m \<or> tokenAt P view s' m = None" for m
    using spec(4) [where m = m] by (elim disjE conjE) simp_all
  show ?thesis
    using pathConfigDelete_configs_ok [OF assms] spec(3,7)
    by (intro good_step_fewer [OF _ _ tok]) (simp_all add: roles_ok_def)
qed

lemma good_role_write:
  assumes "pathRoleWrite P data s = (r, s')" "data_text data"
  shows "good_step P view s s'"
  using assms(1)
proof (cases rule: pathRoleWrite_cases)
  case (stored s1 cfg)
  note spec = storeRole_spec [OF stored(8) writtenRole_text [OF assms(2)], unfolded same_store_contents [OF stored(6)]]
  have ident: "same_identity (roleAt P view s m) (roleAt P view s' m)" for m
  proof (cases "m = GetString data ''name''")
    case True
    then show ?thesis
      using spec(1) stored(2)
      by (auto simp: same_identity_def checkImmutable_def split: option.splits if_splits)
  qed (simp add: spec(3))
  have tok: "tokenAt P view s' m = tokenAt P view s m \<or> tokenAt P view s' m = None" for m
    using spec(5) [where m = m] by (elim disjE conjE) simp_all
  show ?thesis
    using pathRoleWrite_roles_ok [OF assms] spec(4,6) stored(7)
    by (intro good_step_fewer [OF _ _ tok _ ident]) (simp_all add: configs_ok_def)
qed (simp_all add: good_step_same)

lemma good_role_delete:
  assumes "pathRoleDelete P data s = (r, s')"
  shows "good_step P view s s'"
proof -
  let ?n = "GetString data ''name''"
  note spec = pathRoleDelete_spec [OF assms refl]
  have ident: "same_identity (roleAt P view s m) (roleAt P view s' m)" for m
    using spec(1) [of m] spec(2) by (cases "m = ?n") auto
  have tok: "tokenAt P view s' m = tokenAt P view s m \<or> tokenAt P view s' m = None" for m
    using spec(4) [where m = m] by (elim disjE conjE) simp_all
  show ?thesis
    using pathRoleDelete_roles_ok [OF assms] spec(3,6)
    by (intro good_step_fewer [OF _ _ tok _ ident]) (simp_all add: configs_ok_def)
qed

lemma good_read:
  "pathConfigRead P data s = (r, s') \<Longrightarrow> good_step P view s s'"
  "pathRoleRead P data s = (r, s') \<Longrightarrow> good_step P view s s'"
  using pathConfigRead_spec(1,2) pathRoleRead_spec(1,2) good_step_same by metis+

lemma st_List_good: "st_List P p s = (r, s') \<Longrightarrow> good_step P view s s'"
  using st_List_spec(1,2) by (intro good_step_same) (simp_all add: same_store_def)

lemma good_list:
  "pathConfigList P s = (r, s') \<Longrightarrow> good_step P view s s'"
  "pathRoleList P s = (r, s') \<Longrightarrow> good_step P view s s'"
  by (auto simp: pathConfigList_def pathRoleList_def dest: st_List_good split: prod.splits sum.splits)

lemma issueToken_touches:
  assumes "issueToken P n cfg role s = (r, s')" "key_cache_ok P s"
  shows "touches_token P view n s s' \<and> key_cache_ok P s'"
  using assms(1)
proof (cases rule: issueToken_cases)
  case (locked s1 s2)
  have s1: "same_store view s s1" using locked(3) lock_same same_store_trans by metis
  have k1: "key_cache_ok P s1" using key_cache_ok_same [OF assms(2) locked(2)] .
  from locked(4) k1 have "touches_token P view n s1 s2 \<and> key_cache_ok P s2"
    by (cases rule: issueUnderLock_cases) (simp_all add: touches_token_same)
  then show ?thesis
    using touches_token_same [OF s1] touches_token_same [OF unlock_spec(3)] touches_token_trans
      key_cache_ok_same unlock_spec(2) locked(5) by metis
qed (simp_all add: touches_token_same key_cache_ok_same [OF assms(2)])

lemma good_creds:
  assumes "pathCredsRead P data s = (r, s')"
  shows "good_step P view s s'"
  using assms refl
proof (cases rule: pathCredsRead_cases)
  case (issued role cfg s1 ir)
  have "key_cache_ok P s \<Longrightarrow> touches_token P view (GetString data ''name'') s1 s' \<and> key_cache_ok P s'"
    using issueToken_touches [OF issued(6)] key_cache_ok_same [OF _ issued(5)] by blast
  then show ?thesis
    using good_step_touches touches_token_trans [OF touches_token_same [OF issued(3)]]
    unfolding good_step_def plugin_ok_def by metis
qed (simp_all add: good_step_same)

lemma good_rotate:
  assumes "pathRotate P data s = (r, s')"
  shows "good_step P view s s'"
  using assms refl
proof (cases rule: pathRotate_cases)
  case (locked role cfg s1 s2)
  let ?n = "GetString data ''name''" and ?s1 = "lock P (LockForKey P (GetString data ''name'')) s1"
  have start: "same_store view s ?s1" using same_store_trans [OF locked(3) lock_same] .
  have "touches_token P view ?n ?s1 s2 \<and> key_cache_ok P s2" if "key_cache_ok P s"
  proof -
    have k: "key_cache_ok P ?s1" using key_cache_ok_same [OF that] locked(5) lock_spec(2) by simp
    from locked(6) k show ?thesis by (cases rule: rotateUnderLock_spec) simp_all
  qed
  then have "touches_token P view ?n s s' \<and> key_cache_ok P s'" if "key_cache_ok P s"
    using that touches_token_trans [OF touches_token_same [OF start]]
      touches_token_trans [OF _ touches_token_same [OF unlock_spec(3)]]
      key_cache_ok_same [OF _ unlock_spec(2)] locked(7) by blast
  then show ?thesis using good_step_touches unfolding good_step_def plugin_ok_def by metis
qed (simp_all add: good_step_same)

lemma good_revoke:
  assumes "secretAccessTokenRevoke P sec s = (r, s')"
  shows "good_step P view s s'"
proof (cases "\<exists>n. InternalData sec ''role'' = Some (RString n) \<and> n \<noteq> []")
  case True
  then obtain n where n: "InternalData sec ''role'' = Some (RString n)" "n \<noteq> []" by blast
  note spec = secretAccessTokenRevoke_spec [OF assms n]
  show ?thesis using good_step_touches [OF spec(1)] key_cache_ok_same [OF _ spec(2)] by blast
next
  case False
  then have "s' = s" using assms by (auto simp: secretAccessTokenRevoke_def split: option.splits rvalue.splits if_splits)
  then show ?thesis by (simp add: good_step_same)
qed

lemma good_request:
  assumes "handleRequest P op path data s = Some (r, s')" "data_text data"
  shows "good_step P view s s'"
proof -
  obtain name h where h: "route P op path = Some (name, h)" "h (with_name name data) s = (r, s')"
    using assms(1) by (auto simp: handleRequest_def split: option.splits)
  from h(1) show ?thesis
  proof (cases rule: route_cases)
    case info
    then show ?thesis using h(2) by (simp add: pathInfoRead_def good_step_same)
  next
    case named
    then have "data_text (with_name name data)"
      using data_text_with_name [OF assms(2)] generic_name ValidString_ascii by blast
    then show ?thesis
      using named(2) h(2) good_config_write good_config_delete good_role_write good_role_delete
        good_read good_creds good_rotate by metis
  next
    case listing
    then show ?thesis using h(2) good_list by metis
  qed
qed

lemma step_good:
  assumes "step P view s s'"
  shows "good_step P view s s'"
  using assms
proof cases
  case (request data op path r)
  then show ?thesis by (simp add: good_request)
next
  case (revoke sec r)
  then show ?thesis
    using good_revoke by (auto simp: handleRevoke_def newBackend_def secretAccessToken_def split: if_splits)
next
  case (renew sec r)
  then show ?thesis
    using secretAccessTokenRenew_spec(1,3) good_step_same
    by (fastforce simp: handleRenew_def newBackend_def secretAccessToken_def split: if_splits)
next
  case (idle w)
  then show ?thesis by (intro good_step_same) (simp_all add: same_store_def)
qed

lemma reachable_ok: "reachable P view s \<Longrightarrow> plugin_ok P view s"
proof (induction rule: reachable.induct)
  case (mounted s)
  then show ?case
    by (simp add: plugin_ok_def configs_ok_def roles_ok_def tokens_ok_def key_cache_ok_def
        configAt_def roleAt_def tokenAt_def)
next
  case (steps s s')
  then show ?case using step_good by (simp add: good_step_def)
qed

end

end
