(* ===== verification/Mock_Server.thy ===== *)
theory Mock_Server
  imports Backend
begin

text \<open>
  \<^verbatim>\<open>internal/sftest/mock_server.go\<close>: the mock Salesforce endpoint that the tests of the plugin
  run against, and what a client reads of its responses. \<open>Test_Platform\<close> makes it the network of
  a platform.
\<close>

record mock_server =
  ms_URL :: string
  ms_requests :: "(string \<rightharpoonup> string) list"
  ms_failMode :: string
  ms_tokenBase :: string
  ms_mintCounter :: nat
  ms_instanceURL :: string
  ms_assertionValidator :: "(string \<Rightarrow> string option) option"
  ms_mintDelay :: Duration
  ms_transientFails :: int
  ms_transientCode :: int
  ms_revokedTokens :: "string list"

text \<open>\<open>New\<close> on the given address: \<^verbatim>\<open>httptest.NewServer\<close> picks a loopback one.\<close>

definition New :: "string \<Rightarrow> mock_server" where
  "New url = \<lparr>ms_URL = url, ms_requests = [], ms_failMode = [], ms_tokenBase = ''00Dxx0000000000'',
     ms_mintCounter = 0, ms_instanceURL = url, ms_assertionValidator = None, ms_mintDelay = 0,
     ms_transientFails = 0, ms_transientCode = 0, ms_revokedTokens = []\<rparr>"

definition ms_TokenURL :: "mock_server \<Rightarrow> string" where
  "ms_TokenURL m = ms_URL m @ ''/services/oauth2/token''"

definition ms_RevokeURL :: "mock_server \<Rightarrow> string" where
  "ms_RevokeURL m = ms_URL m @ ''/services/oauth2/revoke''"

definition SetFailMode :: "string \<Rightarrow> mock_server \<Rightarrow> mock_server" where
  "SetFailMode mode m = m\<lparr>ms_failMode := mode\<rparr>"

definition SetAssertionValidator :: "(string \<Rightarrow> string option) option \<Rightarrow> mock_server \<Rightarrow> mock_server" where
  "SetAssertionValidator fn m = m\<lparr>ms_assertionValidator := fn\<rparr>"

definition SetMintDelay :: "Duration \<Rightarrow> mock_server \<Rightarrow> mock_server" where
  "SetMintDelay d m = m\<lparr>ms_mintDelay := d\<rparr>"

definition SetTransientFailures :: "int \<Rightarrow> int \<Rightarrow> mock_server \<Rightarrow> mock_server" where
  "SetTransientFailures n status m = m\<lparr>ms_transientFails := n, ms_transientCode := status\<rparr>"

definition URL :: "mock_server \<Rightarrow> string" where
  "URL m = ms_URL m"

definition Requests :: "mock_server \<Rightarrow> (string \<rightharpoonup> string) list" where
  "Requests m = ms_requests m"

definition RevokedTokens :: "mock_server \<Rightarrow> string list" where
  "RevokedTokens m = ms_revokedTokens m"

definition MintCount :: "mock_server \<Rightarrow> nat" where
  "MintCount m = ms_mintCounter m"

definition RevokeCount :: "mock_server \<Rightarrow> nat" where
  "RevokeCount m = length (ms_revokedTokens m)"

section \<open>Responses\<close>

text \<open>\<^verbatim>\<open>json.NewEncoder(w).Encode\<close> of the response; empty optional fields are left out.\<close>

definition json_member :: "string \<Rightarrow> string \<Rightarrow> string" where
  "json_member k v = json_quote k @ '':'' @ json_quote v"

text \<open>A JSON object of string members.\<close>

fun json_members :: "(string \<times> string) list \<Rightarrow> string" where
  "json_members [] = []"
| "json_members [(k, v)] = json_member k v"
| "json_members ((k, v) # ms) = json_member k v @ '','' @ json_members ms"

definition encodeObject :: "(string \<times> string) list \<Rightarrow> string" where
  "encodeObject ms = ''{'' @ json_members ms @ ''}'' @ [CHR 0x0A]"

definition encodeTokenResponse :: "string \<Rightarrow> string \<Rightarrow> string \<Rightarrow> string" where
  "encodeTokenResponse token instance_url scope = encodeObject
     ([(''access_token'', token), (''instance_url'', instance_url), (''token_type'', ''Bearer'')]
      @ (if scope = [] then [] else [(''scope'', scope)]))"

definition writeOAuthError :: "int \<Rightarrow> string \<Rightarrow> string \<Rightarrow> http_response" where
  "writeOAuthError status code desc =
     \<lparr>Status = status, ResponseBody = Inr (encodeObject [(''error'', code), (''error_description'', desc)])\<rparr>"

definition http_Error :: "string \<Rightarrow> int \<Rightarrow> http_response" where
  "http_Error text status = \<lparr>Status = status, ResponseBody = Inr (text @ [CHR 0x0A])\<rparr>"

text \<open>\<^verbatim>\<open>fmt.Sprintf("%s!mint%d", m.tokenBase, m.mintCounter)\<close>\<close>

definition mint_name :: "string \<Rightarrow> nat \<Rightarrow> string" where
  "mint_name base n = base @ ''!mint'' @ dec_digits n"

text \<open>\<^verbatim>\<open>r.Form.Get\<close>: the first value of a key, or the empty string.\<close>

definition form_value :: "(string \<rightharpoonup> string) \<Rightarrow> string \<Rightarrow> string" where
  "form_value f k = (case f k of Some v \<Rightarrow> v | None \<Rightarrow> [])"

section \<open>The handlers\<close>

definition recordRequest :: "(string \<rightharpoonup> string) \<Rightarrow> mock_server \<Rightarrow> int \<times> mock_server" where
  "recordRequest f m =
     (let m1 = m\<lparr>ms_requests := ms_requests m @ [f]\<rparr>
      in if 0 < ms_transientFails m then
           (if ms_transientCode m = 0 then 503 else ms_transientCode m,
            m1\<lparr>ms_transientFails := ms_transientFails m - 1\<rparr>)
         else (0, m1))"

text \<open>
  \<^verbatim>\<open>r.ParseForm\<close> on a request whose URL has no query: the body of a POST, PUT or PATCH is
  read as a form only under the form content type; under another media type the form is empty.
  \<open>media\<close> is \<^verbatim>\<open>mime.ParseMediaType\<close> without the parameters, \<open>None\<close> where it fails, and \<open>perr\<close>
  the text of the library's error for a malformed request. (The limit of 10 MB on the body is
  left out.)
\<close>

definition form_media_type :: string where
  "form_media_type = ''application/x-www-form-urlencoded''"

definition header_value :: "http_request \<Rightarrow> string \<Rightarrow> string" where
  "header_value rq k = (case map_of (Header rq) k of Some v \<Rightarrow> v | None \<Rightarrow> [])"

definition ParseForm ::
  "(string \<Rightarrow> string option) \<Rightarrow> (http_request \<Rightarrow> string) \<Rightarrow> http_request \<Rightarrow> string + (string \<rightharpoonup> string)" where
  "ParseForm media perr rq =
     (let ct = header_value rq ''Content-Type''
      in if Method rq \<notin> {''POST'', ''PUT'', ''PATCH''} then Inr Map.empty
         else case media (if ct = [] then ''application/octet-stream'' else ct) of
           None \<Rightarrow> Inl (perr rq)
         | Some t \<Rightarrow>
             if t = form_media_type then
               (case ParseQuery (Body rq) of None \<Rightarrow> Inl (perr rq) | Some kvs \<Rightarrow> Inr (map_of kvs))
             else Inr Map.empty)"

text \<open>
  The handler of \<^verbatim>\<open>/services/oauth2/token\<close>: the response, the delay before it and the new
  state.
\<close>

definition handleToken ::
  "(string \<Rightarrow> string option) \<Rightarrow> (http_request \<Rightarrow> string) \<Rightarrow> http_request \<Rightarrow> mock_server
     \<Rightarrow> http_response \<times> Duration \<times> mock_server" where
  "handleToken media perr rq m = (case ParseForm media perr rq of
      Inl e \<Rightarrow> (writeOAuthError 400 ''invalid_request'' e, 0, m)
    | Inr f \<Rightarrow>
      (case recordRequest f m of (transient, m1) \<Rightarrow>
         if transient \<noteq> 0 then (http_Error ''transient failure'' transient, 0, m1)
         else if ms_failMode m = ''server_error'' then (http_Error ''boom'' 500, 0, m1)
         else if ms_failMode m \<noteq> [] then
           (writeOAuthError 400 (ms_failMode m) (''mock failure: '' @ ms_failMode m), 0, m1)
         else
           (case (if form_value f ''grant_type'' = jwtBearerGrantType then
                    Option.bind (ms_assertionValidator m) (\<lambda>v. v (form_value f ''assertion'')) else None) of
              Some e \<Rightarrow> (writeOAuthError 400 ''invalid_grant'' e, 0, m1)
            | None \<Rightarrow>
              (let n = Suc (ms_mintCounter m1)
               in (\<lparr>Status = 200, ResponseBody = Inr (encodeTokenResponse
                      (mint_name (ms_tokenBase m1) n) (ms_instanceURL m1) (form_value f ''scope''))\<rparr>,
                   max 0 (ms_mintDelay m), m1\<lparr>ms_mintCounter := n\<rparr>)))))"

definition ms_handleRevoke ::
  "(string \<Rightarrow> string option) \<Rightarrow> (http_request \<Rightarrow> string) \<Rightarrow> http_request \<Rightarrow> mock_server
     \<Rightarrow> http_response \<times> mock_server" where
  "ms_handleRevoke media perr rq m = (case ParseForm media perr rq of
      Inl e \<Rightarrow> (http_Error e 400, m)
    | Inr f \<Rightarrow>
        (\<lparr>Status = 200, ResponseBody = Inr []\<rparr>,
         m\<lparr>ms_revokedTokens := ms_revokedTokens m @ [form_value f ''token'']\<rparr>))"

text \<open>The multiplexer: any other path is not found.\<close>

definition serveHTTP ::
  "(string \<Rightarrow> string option) \<Rightarrow> (http_request \<Rightarrow> string) \<Rightarrow> http_request \<Rightarrow> mock_server
     \<Rightarrow> http_response \<times> Duration \<times> mock_server" where
  "serveHTTP media perr rq m =
     (if RequestURL rq = ms_TokenURL m then handleToken media perr rq m
      else if RequestURL rq = ms_RevokeURL m then
        (case ms_handleRevoke media perr rq m of (resp, m1) \<Rightarrow> (resp, 0, m1))
      else (http_Error ''404 page not found'' 404, 0, m))"

text \<open>A form the plugin posts is read as it was sent, if its headers say that it is one.\<close>

lemma ParseForm_newPost:
  assumes "newPost u f hs = Inr rq" "map_of hs ''Content-Type'' = Some form_media_type"
    and "media form_media_type = Some form_media_type"
  shows "ParseForm media perr rq = Inr (map_of (sort_key fst f))"
proof -
  have "Method rq = ''POST''" "header_value rq ''Content-Type'' = form_media_type" "Body rq = Values_Encode f"
    using assms(1,2) by (auto simp: newPost_request header_value_def)
  moreover have "form_media_type \<noteq> []" by (simp add: form_media_type_def)
  ultimately show ?thesis using assms(3) by (simp add: ParseForm_def ParseQuery_Values_Encode)
qed

section \<open>What a client reads\<close>

lemma json_space_chars: "\<not> json_space (CHR 0x22)" "\<not> json_space (CHR ''{'')" "\<not> json_space (CHR ''}'')"
  "\<not> json_space (CHR '','')" "\<not> json_space (CHR '':'')" "json_space (CHR 0x0A)"
  by (simp_all add: json_space_def byte_def)

lemma p_value_quote:
  assumes "ValidString v"
  shows "p_value (Suc n) d (json_quote v @ t) = Some (JStr v, t)"
  using p_str_json_escape [OF assms] by (simp add: json_quote_def skip_ws_def json_space_chars)

lemma p_members_quote:
  assumes "ValidString k" "ValidString v"
  shows "p_members (Suc (Suc n)) d (json_member k v @ CHR '','' # t)
      = map_option (\<lambda>(ms, w). ((k, JStr v) # ms, w)) (p_members (Suc n) d t)"
    and "p_members (Suc (Suc n)) d (json_member k v @ CHR ''}'' # t) = Some ([(k, JStr v)], t)"
proof -
  have key: "p_str (json_escape k @ CHR 0x22 # u) = Some (k, u)" for u
    using assms(1) by (rule p_str_json_escape)
  have "p_members (Suc (Suc n)) d (json_member k v @ c # t) =
      (if c = CHR '','' then map_option (\<lambda>(ms, w). ((k, JStr v) # ms, w)) (p_members (Suc n) d t)
       else if c = CHR ''}'' then Some ([(k, JStr v)], t) else None)" if "\<not> json_space c" for c
    unfolding p_members.simps(2) [of "Suc n" d] json_member_def
    using that p_value_quote [OF assms(2), of n d "c # t"]
    by (simp add: json_quote_def [of k] skip_ws_def json_space_chars key del: p_value.simps p_members.simps)
  then show "p_members (Suc (Suc n)) d (json_member k v @ CHR '','' # t)
      = map_option (\<lambda>(ms, w). ((k, JStr v) # ms, w)) (p_members (Suc n) d t)"
    "p_members (Suc (Suc n)) d (json_member k v @ CHR ''}'' # t) = Some ([(k, JStr v)], t)"
    using json_space_chars by simp_all
qed

lemma p_members_list:
  "\<forall>(k, v) \<in> set ms. ValidString k \<and> ValidString v \<Longrightarrow> ms \<noteq> [] \<Longrightarrow>
    p_members (Suc (length ms) + n) d (json_members ms @ CHR ''}'' # t)
      = Some (map (\<lambda>(k, v). (k, JStr v)) ms, t)"
proof (induction ms rule: json_members.induct)
  case (2 k v)
  then show ?case using p_members_quote(2) [of k v n d t] by simp
next
  case (3 k v m ms)
  then have ih: "p_members (Suc (length (m # ms)) + n) d (json_members (m # ms) @ CHR ''}'' # t)
      = Some (map (\<lambda>(k, v). (k, JStr v)) (m # ms), t)"
    by simp
  have "p_members (Suc (Suc (length (m # ms) + n))) d (json_member k v @ CHR '','' # (json_members (m # ms) @ CHR ''}'' # t))
      = map_option (\<lambda>(ms, w). ((k, JStr v) # ms, w))
          (p_members (Suc (length (m # ms) + n)) d (json_members (m # ms) @ CHR ''}'' # t))"
    using 3(2) by (intro p_members_quote(1)) auto
  then show ?case using ih by (simp del: p_members.simps json_members.simps(3) add: json_members.simps(3) [of k v m ms])
qed simp

lemma json_parse_object:
  assumes "\<forall>(k, v) \<in> set ms. ValidString k \<and> ValidString v" "ms \<noteq> []"
  shows "json_parse (encodeObject ms) = Some (JObj (map (\<lambda>(k, v). (k, JStr v)) ms))"
proof -
  let ?s = "''{'' @ json_members ms @ ''}'' @ [CHR 0x0A]"
  let ?n = "2 * length ?s + 2"
  obtain r where ms: "json_members ms = CHR 0x22 # r"
    using assms(2) by (cases ms rule: json_members.cases) (auto simp: json_member_def json_quote_def)
  have "p_members (Suc (length ms) + ?n) 1 (json_members ms @ CHR ''}'' # [CHR 0x0A])
      = Some (map (\<lambda>(k, v). (k, JStr v)) ms, [CHR 0x0A])"
    using assms by (rule p_members_list)
  then have "p_value (Suc (Suc (length ms) + ?n)) 0 ?s = Some (JObj (map (\<lambda>(k, v). (k, JStr v)) ms), [CHR 0x0A])"
    unfolding p_value.simps(2)
    by (simp add: skip_ws_def json_space_chars max_depth_def HasPrefix_def ms del: p_members.simps)
  then show ?thesis
    unfolding encodeObject_def using json_parse_fuel [of ?s "Suc (Suc (length ms) + ?n)"]
    by (simp add: skip_ws_def json_space_chars del: p_value.simps)
qed

lemma fold_names:
  "foldName ''access_token'' = ''ACCESS_TOKEN''" "foldName ''instance_url'' = ''INSTANCE_URL''"
  "foldName ''token_type'' = ''TOKEN_TYPE''" "foldName ''scope'' = ''SCOPE''"
  "foldName ''expires_in'' = ''EXPIRES_IN''" "foldName ''error'' = ''ERROR''"
  "foldName ''error_description'' = ''ERROR_DESCRIPTION''"
  by code_simp+

text \<open>The plugin reads back exactly the token the mock wrote.\<close>

lemma readTokenResponse_mock:
  assumes "ValidString tok" "tok \<noteq> []" "ValidString url" "ValidString sc"
    "length (encodeTokenResponse tok url sc) \<le> max_body"
  shows "readTokenResponse \<lparr>Status = 200, ResponseBody = Inr (encodeTokenResponse tok url sc)\<rparr>
    = Inr \<lparr>AccessToken = tok, InstanceURL = url, TokenType = ''Bearer'', Scope = sc, ExpiresIn = 0\<rparr>"
proof -
  let ?ms = "[(''access_token'', tok), (''instance_url'', url), (''token_type'', ''Bearer'')]
      @ (if sc = [] then [] else [(''scope'', sc)])"
  have names: "ValidString ''access_token''" "ValidString ''instance_url''" "ValidString ''token_type''"
    "ValidString ''Bearer''" "ValidString ''scope''"
    by (rule ValidString_ascii, code_simp)+
  have "json_parse (encodeTokenResponse tok url sc) = Some (JObj (map (\<lambda>(k, v). (k, JStr v)) ?ms))"
    unfolding encodeTokenResponse_def using assms names by (intro json_parse_object) auto
  then have "Unmarshal store_token_field zeroTokenResult (encodeTokenResponse tok url sc)
      = Some \<lparr>AccessToken = tok, InstanceURL = url, TokenType = ''Bearer'', Scope = sc, ExpiresIn = 0\<rparr>"
    by (simp add: Unmarshal_def store_token_field_def fold_names store_string_def zeroTokenResult_def
        del: foldName.simps)
  then show ?thesis
    using assms(2,5) by (simp add: readTokenResponse_def Let_def)
qed

lemma parseTokenError_mock:
  assumes "ValidString code" "ValidString desc"
  shows "parseTokenError status (encodeObject [(''error'', code), (''error_description'', desc)])
    = OAuthError \<lparr>StatusCode = status, Code = code, Description = desc\<rparr>"
proof -
  have "ValidString ''error''" "ValidString ''error_description''"
    by (rule ValidString_ascii, code_simp)+
  then have "json_parse (encodeObject [(''error'', code), (''error_description'', desc)])
      = Some (JObj [(''error'', JStr code), (''error_description'', JStr desc)])"
    using json_parse_object [of "[(''error'', code), (''error_description'', desc)]"] assms by simp
  then show ?thesis
    by (simp add: parseTokenError_def Unmarshal_def store_error_field_def fold_names store_string_def Let_def
        del: foldName.simps)
qed

text \<open>Every response of the mock has a body.\<close>

lemma serveHTTP_body: "serveHTTP media perr rq m = (resp, d, m') \<Longrightarrow> isOk (ResponseBody resp)"
  by (auto simp: serveHTTP_def handleToken_def ms_handleRevoke_def writeOAuthError_def http_Error_def Let_def
      split: option.splits sum.splits if_splits prod.splits)

end
