(* ===== verification/Test_Platform.thy ===== *)
theory Test_Platform
  imports Mock_Server "HOL-Library.AList"
begin

text \<open>
  A platform on which everything runs: storage in memory, a lock pool, a clock that moves
  while a request waits, and the mock endpoint of \<^verbatim>\<open>internal/sftest\<close> as the network. It meets
  the contracts \<open>barrier\<close>, \<open>observed\<close> and \<open>serial\<close>, so their assumptions are consistent and
  every operation of the plugin can be evaluated on concrete inputs.
\<close>

datatype stored = StoredConfig salesforceConfig | StoredRole salesforceRole | StoredToken cachedToken

record test_world =
  tw_store :: "(string \<times> stored) list"
  tw_clock :: Time
  tw_history :: "event list"
  tw_held :: "nat list"
  tw_server :: mock_server

definition wrong_entry :: gerror where
  "wrong_entry = CodecError ''unexpected entry''"

definition test_list :: "string \<Rightarrow> (string \<times> stored) list \<Rightarrow> string list" where
  "test_list p st = filter (\<lambda>n. CHR ''/'' \<notin> set n)
     (map (\<lambda>kv. drop (length p) (fst kv)) (filter (\<lambda>kv. HasPrefix (fst kv) p) st))"

text \<open>The mock's answer to a malformed form.\<close>

definition form_error :: "http_request \<Rightarrow> string" where
  "form_error rq = ''invalid form''"

text \<open>Media types without the check of their characters and parameters.\<close>

definition form_media :: "string \<Rightarrow> string option" where
  "form_media v = Some (map ascii_lower (takeWhile (\<lambda>c. c \<notin> set ''; '') v))"

lemma form_media_form: "form_media form_media_type = Some form_media_type"
  by code_simp

definition test_http :: "http_client \<Rightarrow> http_request \<Rightarrow> test_world \<Rightarrow> (gerror + http_response) \<times> test_world" where
  "test_http cl rq w = (case serveHTTP form_media form_error rq (tw_server w) of (resp, delay, m) \<Rightarrow>
     (Inr resp, w\<lparr>tw_server := m, tw_clock := tw_clock w + max 0 delay,
        tw_history := tw_history w @ [Sent cl rq (Inr resp)]\<rparr>))"

definition test_lock :: "nat \<Rightarrow> test_world \<Rightarrow> test_world" where
  "test_lock ix w = w\<lparr>tw_held := ix # tw_held w, tw_history := tw_history w @ [Locked ix]\<rparr>"

text \<open>The test keys: any text that looks like a PEM block; a signature shows the claims.\<close>

definition test_parse_key :: "string \<Rightarrow> gerror + string" where
  "test_parse_key pem = (if HasPrefix pem ''-----BEGIN'' then Inr pem else Inl (LibraryError ''invalid key''))"

definition test_sign :: "string \<Rightarrow> jwt_claims \<Rightarrow> gerror + string" where
  "test_sign key cs = Inr (iss cs @ ''.'' @ sub cs @ ''.'' @ aud cs @ ''.'' @ dec_digits (nat (exp_claim cs)))"

definition test_platform :: "(test_world, stored, string) platform" where
  "test_platform = \<lparr>
     Storage_Get = (\<lambda>k w. (Inr (map_of (tw_store w) k), w)),
     Storage_Put = (\<lambda>k b w. (Inr (), w\<lparr>tw_store := AList.update k b (tw_store w)\<rparr>)),
     Storage_Delete = (\<lambda>k w. (Inr (), w\<lparr>tw_store := AList.delete k (tw_store w)\<rparr>)),
     Storage_List = (\<lambda>p w. (Inr (test_list p (tw_store w)), w)),
     EncodeConfig = (\<lambda>c. Inr (StoredConfig c)),
     DecodeConfig = (\<lambda>b. case b of StoredConfig c \<Rightarrow> if config_text c then Inr c else Inl wrong_entry | _ \<Rightarrow> Inl wrong_entry),
     EncodeRole = (\<lambda>r. Inr (StoredRole r)),
     DecodeRole = (\<lambda>b. case b of StoredRole r \<Rightarrow> if role_text r then Inr r else Inl wrong_entry | _ \<Rightarrow> Inl wrong_entry),
     EncodeToken = (\<lambda>t. Inr (StoredToken t)),
     DecodeToken = (\<lambda>b. case b of StoredToken t \<Rightarrow> if token_text t then Inr t else Inl wrong_entry | _ \<Rightarrow> Inl wrong_entry),
     Time_Now = (\<lambda>w. (tw_clock w, w)),
     Ctx_Err = (\<lambda>w. (None, w)),
     Wait_After = (\<lambda>d w. (None, w\<lparr>tw_clock := tw_clock w + max 0 d, tw_history := tw_history w @ [Waited d]\<rparr>)),
     Rand_Int63n = (\<lambda>i w. (0, w)),
     Http_Do = test_http,
     AppendCertsFromPEM = (\<lambda>pem. HasPrefix pem ''-----BEGIN''),
     ParseRSAPrivateKeyFromPEM = test_parse_key,
     SignedString = test_sign,
     LockForKey = (\<lambda>k. length k mod 256),
     TryLock = (\<lambda>ix w. if ix \<in> set (tw_held w) then (False, w) else (True, test_lock ix w)),
     Lock = test_lock,
     Unlock = (\<lambda>ix w. w\<lparr>tw_held := remove1 ix (tw_held w), tw_history := tw_history w @ [Unlocked ix]\<rparr>),
     Unicode_ToLower = map ascii_lower,
     GenericName = (\<lambda>n. n \<noteq> [] \<and> CHR ''/'' \<notin> set n \<and> list_all is_ascii n)\<rparr>"

lemma test_fields [simp]:
  "Storage_Get test_platform k w = (Inr (map_of (tw_store w) k), w)"
  "Storage_Put test_platform k b w = (Inr (), w\<lparr>tw_store := AList.update k b (tw_store w)\<rparr>)"
  "Storage_Delete test_platform k w = (Inr (), w\<lparr>tw_store := AList.delete k (tw_store w)\<rparr>)"
  "Storage_List test_platform k w = (Inr (test_list k (tw_store w)), w)"
  "EncodeConfig test_platform c = Inr (StoredConfig c)"
  "EncodeRole test_platform ro = Inr (StoredRole ro)"
  "EncodeToken test_platform t = Inr (StoredToken t)"
  "config_text c \<Longrightarrow> DecodeConfig test_platform (StoredConfig c) = Inr c"
  "role_text ro \<Longrightarrow> DecodeRole test_platform (StoredRole ro) = Inr ro"
  "token_text t \<Longrightarrow> DecodeToken test_platform (StoredToken t) = Inr t"
  "Time_Now test_platform w = (tw_clock w, w)"
  "Ctx_Err test_platform w = (None, w)"
  "Http_Do test_platform = test_http"
  "LockForKey test_platform k = length k mod 256"
  "TryLock test_platform ix w = (if ix \<in> set (tw_held w) then (False, w) else (True, test_lock ix w))"
  "Lock test_platform = test_lock"
  "Unlock test_platform ix w =
     w\<lparr>tw_held := remove1 ix (tw_held w), tw_history := tw_history w @ [Unlocked ix]\<rparr>"
  "GenericName test_platform n \<longleftrightarrow> n \<noteq> [] \<and> CHR ''/'' \<notin> set n \<and> list_all is_ascii n"
  by (simp_all add: test_platform_def)

definition test_view :: "test_world \<Rightarrow> string \<rightharpoonup> stored" where
  "test_view w = map_of (tw_store w)"

lemma test_list_names:
  assumes "n \<noteq> []" "CHR ''/'' \<notin> set n"
  shows "n \<in> set (test_list p st) \<longleftrightarrow> p @ n \<in> dom (map_of st)"
proof -
  have piece: "HasPrefix k p \<and> n = drop (length p) k \<longleftrightarrow> k = p @ n" for k
    by (auto simp: HasPrefix_iff)
  have "n \<in> set (test_list p st) \<longleftrightarrow> (\<exists>kv \<in> set st. HasPrefix (fst kv) p \<and> n = drop (length p) (fst kv))"
    using assms(2) unfolding test_list_def by auto
  then have "n \<in> set (test_list p st) \<longleftrightarrow> (\<exists>kv \<in> set st. fst kv = p @ n)"
    unfolding piece .
  then show ?thesis unfolding dom_map_of_conv_image_fst image_iff by metis
qed

lemmas test_simps = test_platform_def test_view_def update_conv' delete_conv' test_lock_def

interpretation test_storage: barrier test_platform test_view
proof (unfold_locales, goal_cases)
  case (8 p w ns w' n)
  then show ?case using test_list_names [of n p "tw_store w"] by (auto simp: test_simps)
qed (auto simp: test_simps test_http_def wrong_entry_def split: stored.splits prod.splits if_splits)

interpretation test_events: observed test_platform test_view tw_history tw_clock
proof (unfold_locales, goal_cases)
  case (14 cl rq w hr w')
  then obtain resp where "hr = Inr resp" "isOk (ResponseBody resp)"
    using serveHTTP_body by (fastforce simp: test_simps test_http_def split: prod.splits)
  then show ?case by (auto simp: isOk_iff)
qed (auto simp: test_simps test_http_def adds_def foreign_def test_parse_key_def test_sign_def wrong_entry_def
    split: prod.splits if_splits stored.splits)

interpretation test_serial: serial test_platform test_view tw_history tw_clock
  by unfold_locales (simp add: test_simps)

section \<open>A scenario\<close>

text \<open>Field data as the framework builds it from a request and the schemas of the plugin.\<close>

definition default_int :: "string \<Rightarrow> int" where
  "default_int k = (case map_of roleFields k of
      Some f \<Rightarrow> (case field_default f of Some (RInt v) \<Rightarrow> v | _ \<Rightarrow> 0) | None \<Rightarrow> 0)"

definition request_data ::
  "(string \<times> string) list \<Rightarrow> (string \<times> bool) list \<Rightarrow> (string \<times> int) list \<Rightarrow> field_data" where
  "request_data strs bools ints =
     \<lparr>GetOkString = map_of strs, GetOkBool = map_of bools, GetOkInt = map_of ints,
      GetOkStrings = (\<lambda>_. None),
      GetString = (\<lambda>k. case map_of strs k of Some v \<Rightarrow> v | None \<Rightarrow> []),
      GetInt = (\<lambda>k. case map_of ints k of Some v \<Rightarrow> v | None \<Rightarrow> default_int k)\<rparr>"

definition mock_url :: string where
  "mock_url = ''http://127.0.0.1:8200''"

definition org_data :: field_data where
  "org_data = request_data
     [(''name'', ''org''), (''login_url'', mock_url), (''client_id'', ''id''), (''client_secret'', ''pw'')]
     [(''allow_non_salesforce_host'', True)] []"

definition app_data :: field_data where
  "app_data = request_data
     [(''name'', ''app''), (''config'', ''org''), (''grant_type'', ''client_credentials'')] [] []"

definition name_data :: "string \<Rightarrow> field_data" where
  "name_data n = request_data [(''name'', n)] [] []"

type_synonym test_engine = "(test_world, string) engine"

definition start :: test_engine where
  "start = \<lparr>ext = \<lparr>tw_store = [], tw_clock = 1700000000 * time_Second, tw_history = [], tw_held = [],
     tw_server = New mock_url\<rparr>, rsaKeyCache = Map.empty, logs = []\<rparr>"

definition configured :: test_engine where
  "configured = snd (pathConfigWrite test_platform org_data start)"

definition with_role :: test_engine where
  "with_role = snd (pathRoleWrite test_platform app_data configured)"

definition issued :: test_engine where
  "issued = snd (pathCredsRead test_platform (name_data ''app'') with_role)"

definition succeeded :: "(gerror + 'a) \<times> 'b \<Rightarrow> bool" where
  "succeeded r = isOk (fst r)"

text \<open>A mint against a healthy mock: one request, and the next token of the mock.\<close>

definition healthy :: "mock_server \<Rightarrow> bool" where
  "healthy m \<longleftrightarrow> ms_failMode m = [] \<and> ms_transientFails m \<le> 0 \<and> ms_mintDelay m \<le> 0
     \<and> ms_assertionValidator m = None
     \<and> length (encodeTokenResponse (mint_name (ms_tokenBase m) (Suc (ms_mintCounter m))) (ms_instanceURL m) []) \<le> max_body
     \<and> list_all is_ascii (mint_name (ms_tokenBase m) (Suc (ms_mintCounter m))) \<and> list_all is_ascii (ms_instanceURL m)"

definition mock_result :: "mock_server \<Rightarrow> tokenResult" where
  "mock_result m = \<lparr>AccessToken = mint_name (ms_tokenBase m) (Suc (ms_mintCounter m)),
     InstanceURL = ms_instanceURL m, TokenType = ''Bearer'', Scope = [], ExpiresIn = 0\<rparr>"

lemma handleToken_healthy:
  assumes "healthy m" "ParseForm media perr rq = Inr g" "g ''scope'' = None"
  shows "\<exists>resp m'. handleToken media perr rq m = (resp, 0, m') \<and> readTokenResponse resp = Inr (mock_result m)
    \<and> ms_mintCounter m' = Suc (ms_mintCounter m) \<and> Requests m' = Requests m @ [g]"
proof -
  let ?tok = "mint_name (ms_tokenBase m) (Suc (ms_mintCounter m))"
  have scope: "form_value g ''scope'' = []" using assms(3) by (simp add: form_value_def)
  have read: "readTokenResponse \<lparr>Status = 200, ResponseBody = Inr (encodeTokenResponse ?tok (ms_instanceURL m) [])\<rparr>
      = Inr (mock_result m)"
    using assms(1) unfolding mock_result_def
    by (intro readTokenResponse_mock) (auto simp: healthy_def mint_name_def intro!: ValidString_ascii)
  show ?thesis
    using assms(1,2) scope read
    by (simp add: handleToken_def recordRequest_def healthy_def Let_def Requests_def)
qed

text \<open>The forms of the plugin, as the mock reads them.\<close>

lemma ParseForm_plugin:
  "newPost u f tokenHeaders = Inr rq \<Longrightarrow> ParseForm form_media form_error rq = Inr (map_of (sort_key fst f))"
  "newPost u f revokeHeaders = Inr rq \<Longrightarrow> ParseForm form_media form_error rq = Inr (map_of (sort_key fst f))"
  by (erule ParseForm_newPost; simp add: tokenHeaders_def revokeHeaders_def form_media_form; simp add: form_media_type_def)+

lemma no_scope: "\<forall>kv \<in> set f. fst kv \<noteq> ''scope'' \<Longrightarrow> map_of (sort_key fst f) ''scope'' = None"
  by (auto simp: map_of_eq_None_iff)

text \<open>One exchange of the plugin with the mock's token endpoint.\<close>

definition exchanged :: "event \<Rightarrow> Duration \<Rightarrow> mock_server \<Rightarrow> test_engine \<Rightarrow> test_engine" where
  "exchanged ev d m s = s\<lparr>ext := (ext s)\<lparr>tw_server := m, tw_clock := tw_clock (ext s) + max 0 d,
     tw_history := tw_history (ext s) @ [ev]\<rparr>\<rparr>"

lemma mock_exchange:
  assumes "newPost (tokenURL cfg) f tokenHeaders = Inr rq" "tokenURL cfg = ms_TokenURL (tw_server (ext s))"
    "handleToken form_media form_error rq (tw_server (ext s)) = (resp, d, m')"
  shows "doTokenRequestOnce test_platform cl cfg f s
    = (readTokenResponse resp, exchanged (Sent cl rq (Inr resp)) d m' s)"
proof -
  have "RequestURL rq = ms_TokenURL (tw_server (ext s))"
    using assms(1,2) by (auto simp: newPost_request)
  then show ?thesis
    using assms(1,3) by (simp add: doTokenRequestOnce_def do_http_def test_http_def serveHTTP_def exchanged_def)
qed

lemma mock_client_credentials:
  assumes "healthy (tw_server (ext s))" "tokenURL cfg = ms_TokenURL (tw_server (ext s))"
    "CACert cfg = []" "isOk (url_Parse (tokenURL cfg))"
  shows "\<exists>ev m'. requestClientCredentialsToken test_platform cfg s
      = (Inr (mock_result (tw_server (ext s))), exchanged ev 0 m' s)
    \<and> MintCount m' = Suc (MintCount (tw_server (ext s))) \<and> posts [ev] \<noteq> []"
proof -
  let ?f = "clientCredentialsForm cfg"
  obtain rq where rq: "newPost (tokenURL cfg) ?f tokenHeaders = Inr rq"
    using assms(4) by (auto simp: newPost_request)
  obtain cl where cl: "httpClientFor test_platform cfg = Inr cl"
    using assms(3) by (simp add: httpClientFor_def)
  obtain resp m' where h: "handleToken form_media form_error rq (tw_server (ext s)) = (resp, 0, m')"
    "readTokenResponse resp = Inr (mock_result (tw_server (ext s)))"
    "ms_mintCounter m' = Suc (ms_mintCounter (tw_server (ext s)))"
    using handleToken_healthy [OF assms(1) ParseForm_plugin(1) [OF rq] no_scope] by (auto simp: clientCredentialsForm_def)
  show ?thesis
    using mock_exchange [OF rq assms(2) h(1), of cl] cl h(2,3)
    by (intro exI [of _ "Sent cl rq (Inr resp)"] exI [of _ m'])
      (simp add: requestClientCredentialsToken_def doTokenRequest_def tokenAttempts.simps
        beforeAttempt_def MintCount_def)
qed

section \<open>A mock that recovers\<close>

text \<open>A mock that is healthy once its transient failures, of a retryable status, are used up.\<close>

definition recovering :: "mock_server \<Rightarrow> bool" where
  "recovering m \<longleftrightarrow> healthy (m\<lparr>ms_transientFails := 0\<rparr>) \<and> ms_transientCode m \<noteq> 200
     \<and> isRetryableStatus (if ms_transientCode m = 0 then 503 else ms_transientCode m)"

lemma beforeAttempt_test: "\<exists>s1. beforeAttempt test_platform a s = (None, s1) \<and> tw_server (ext s1) = tw_server (ext s)"
  by (auto simp: beforeAttempt_def waitBackoff_def test_platform_def)

lemma http_Error_outcome:
  assumes "status \<noteq> 200" "isRetryableStatus status"
  shows "\<exists>e. readTokenResponse (http_Error msg status) = Inl (e, True)"
  using assms by (simp add: readTokenResponse_def http_Error_def Let_def)

lemma handleToken_transient:
  assumes "ms_transientFails m = int (Suc j)" "recovering m" "ParseForm media perr rq = Inr g"
  shows "\<exists>resp e m'. handleToken media perr rq m = (resp, 0, m') \<and> readTokenResponse resp = Inl (e, True)
    \<and> ms_transientFails m' = int j \<and> recovering m' \<and> mock_result m' = mock_result m
    \<and> MintCount m' = MintCount m \<and> length (Requests m') = Suc (length (Requests m)) \<and> ms_TokenURL m' = ms_TokenURL m"
proof -
  let ?c = "if ms_transientCode m = 0 then 503 else ms_transientCode m"
  obtain e where "readTokenResponse (http_Error ''transient failure'' ?c) = Inl (e, True)"
    using http_Error_outcome [of ?c "''transient failure''"] assms(2) by (auto simp: recovering_def split: if_splits)
  then show ?thesis
    using assms
    by (auto simp: handleToken_def recordRequest_def Let_def recovering_def healthy_def
        mock_result_def MintCount_def Requests_def ms_TokenURL_def)
qed

lemma recovering_healthy: "recovering m \<Longrightarrow> ms_transientFails m = 0 \<Longrightarrow> healthy m"
  by (simp add: recovering_def healthy_def)

lemma tokenAttempts_healthy:
  assumes "newPost (tokenURL cfg) f tokenHeaders = Inr rq" "\<forall>kv \<in> set f. fst kv \<noteq> ''scope''"
    and "healthy (tw_server (ext s))" "tokenURL cfg = ms_TokenURL (tw_server (ext s))"
  shows "\<exists>s'. tokenAttempts test_platform cl cfg f a k s = (Inr (mock_result (tw_server (ext s))), s')
    \<and> length (Requests (tw_server (ext s'))) = Suc (length (Requests (tw_server (ext s))))
    \<and> MintCount (tw_server (ext s')) = Suc (MintCount (tw_server (ext s)))"
proof -
  obtain s1 where s1: "beforeAttempt test_platform a s = (None, s1)" "tw_server (ext s1) = tw_server (ext s)"
    using beforeAttempt_test by blast
  obtain resp m' where m': "handleToken form_media form_error rq (tw_server (ext s1)) = (resp, 0, m')"
    "readTokenResponse resp = Inr (mock_result (tw_server (ext s)))"
    "ms_mintCounter m' = Suc (ms_mintCounter (tw_server (ext s)))"
    "Requests m' = Requests (tw_server (ext s)) @ [map_of (sort_key fst f)]"
    using handleToken_healthy [OF assms(3) ParseForm_plugin(1) [OF assms(1)] no_scope [OF assms(2)]] s1(2) by auto
  have url: "tokenURL cfg = ms_TokenURL (tw_server (ext s1))" using assms(4) s1(2) by simp
  show ?thesis
    using mock_exchange [OF assms(1) url m'(1), of cl] s1(1) m'
    by (simp add: tokenAttempts.simps [of _ _ _ _ _ k] exchanged_def MintCount_def)
qed

lemma tokenAttempts_recovers:
  assumes "newPost (tokenURL cfg) f tokenHeaders = Inr rq" "\<forall>kv \<in> set f. fst kv \<noteq> ''scope''"
    and "ms_transientFails (tw_server (ext s)) = int j" "j \<le> k" "recovering (tw_server (ext s))"
    and "tokenURL cfg = ms_TokenURL (tw_server (ext s))"
  shows "\<exists>s'. tokenAttempts test_platform cl cfg f a k s = (Inr (mock_result (tw_server (ext s))), s')
    \<and> length (Requests (tw_server (ext s'))) = length (Requests (tw_server (ext s))) + Suc j
    \<and> MintCount (tw_server (ext s')) = Suc (MintCount (tw_server (ext s)))"
  using assms(3-6)
proof (induction j arbitrary: a k s)
  case 0
  then show ?case using tokenAttempts_healthy [OF assms(1,2) recovering_healthy] by simp
next
  case (Suc i)
  then obtain k' where k: "k = Suc k'" "i \<le> k'" by (cases k) auto
  obtain s1 where s1: "beforeAttempt test_platform a s = (None, s1)" "tw_server (ext s1) = tw_server (ext s)"
    using beforeAttempt_test by blast
  have url: "tokenURL cfg = ms_TokenURL (tw_server (ext s1))" using Suc.prems s1(2) by simp
  obtain resp e m' where m': "handleToken form_media form_error rq (tw_server (ext s1)) = (resp, 0, m')"
    "readTokenResponse resp = Inl (e, True)" "ms_transientFails m' = int i" "recovering m'"
    "mock_result m' = mock_result (tw_server (ext s))" "MintCount m' = MintCount (tw_server (ext s))"
    "length (Requests m') = Suc (length (Requests (tw_server (ext s))))" "ms_TokenURL m' = ms_TokenURL (tw_server (ext s))"
    using handleToken_transient [OF Suc.prems(1,3) ParseForm_plugin(1) [OF assms(1)]] s1(2) by auto
  let ?s2 = "exchanged (Sent cl rq (Inr resp)) 0 m' s1"
  have server: "tw_server (ext ?s2) = m'" by (simp add: exchanged_def)
  have "tokenAttempts test_platform cl cfg f a k s = tokenAttempts test_platform cl cfg f (Suc a) k' ?s2"
    using mock_exchange [OF assms(1) url m'(1), of cl] s1(1) m'(2)
    by (simp add: tokenAttempts.simps [of _ _ _ _ _ "Suc k'"] k)
  moreover have "\<exists>s'. tokenAttempts test_platform cl cfg f (Suc a) k' ?s2 = (Inr (mock_result m'), s')
      \<and> length (Requests (tw_server (ext s'))) = length (Requests m') + Suc i
      \<and> MintCount (tw_server (ext s')) = Suc (MintCount m')"
    using Suc.IH [of ?s2 k' "Suc a"] m'(3,4,8) k(2) Suc.prems(4) server by simp
  ultimately show ?case using m'(5-7) by simp
qed

end
