(* ===== verification/Scenario.thy ===== *)
theory Scenario
  imports Test_Platform
begin

text \<open>
  The scenario of the tests, evaluated: an org is configured on an empty mount, then a role is
  bound to it. The states after each request are written out, and they are reachable.
\<close>

definition org_config :: salesforceConfig where
  "org_config = \<lparr>LoginURL = mock_url, TokenURL = [], ClientID = ''id'', ClientSecret = ''pw'', PrivateKey = [],
     CACert = [], TLSSkipVerify = False, AllowNonSalesforceHost = True\<rparr>"

definition app_role :: salesforceRole where
  "app_role = \<lparr>Config = ''org'', GrantType = ''client_credentials'', Username = [], Scopes = [],
     TokenTTL = 900 * time_Second, TTL = 0, MaxTTL = 0, RenewSkew = 60 * time_Second,
     JWTExpiry = 180 * time_Second, Audience = [], UseIntrospection = False, RevokeTokens = False\<rparr>"

lemma org_written: "applyConfigFields org_data (baseConfig None) = org_config"
  by code_simp

lemma app_written: "applyRoleFields app_data (baseRole None) = app_role"
  by code_simp

lemma org_checked: "checkConfig test_platform org_data None org_config = None"
  by code_simp

lemma app_checked: "checkRoleFields app_role = None" "checkGrantMaterial app_role org_config = None"
  by code_simp+

lemma scenario_text: "config_text org_config" "role_text app_role"
  by code_simp+

lemma scenario_names: "GetString org_data ''name'' = ''org''" "GetString app_data ''name'' = ''app''"
  "GetString (name_data n) ''name'' = n"
  by (simp_all add: org_data_def app_data_def name_data_def request_data_def)

lemma request_data_text:
  assumes "list_all (\<lambda>kv. ValidString (snd kv)) strs"
  shows "data_text (request_data strs bools ints)"
  using assms by (fastforce simp: data_text_def request_data_def list_all_iff dest: map_of_SomeD)

lemma scenario_data_text: "data_text org_data" "data_text app_data"
  unfolding org_data_def app_data_def by (rule request_data_text, code_simp)+

lemma configured_eq:
  "pathConfigWrite test_platform org_data start =
    (Inr None, \<lparr>ext = (ext start)\<lparr>tw_store := [(''config/org'', StoredConfig org_config)]\<rparr>,
       rsaKeyCache = Map.empty, logs = [NonSalesforceHostAllowed ''org'']\<rparr>)"
proof -
  have g: "getConfig test_platform ''org'' start = (Inr None, start)"
    by (simp add: getConfig_def st_Get_def start_def)
  have l: "logConfigTransitions test_platform ''org'' None org_config start
      = start\<lparr>logs := [NonSalesforceHostAllowed ''org'']\<rparr>"
    by (simp add: logConfigTransitions_def org_config_def log_def start_def Let_def)
  have st: "storeConfig test_platform ''org'' org_config (start\<lparr>logs := [NonSalesforceHostAllowed ''org'']\<rparr>)
      = (Inr None, \<lparr>ext = (ext start)\<lparr>tw_store := [(''config/org'', StoredConfig org_config)]\<rparr>,
       rsaKeyCache = Map.empty, logs = [NonSalesforceHostAllowed ''org'']\<rparr>)"
    by (simp add: storeConfig_def st_Put_def deleteCachedTokensForConfig_def st_List_def test_list_def
        prefix_defs start_def HasPrefix_def)
  show ?thesis
    by (simp add: pathConfigWrite_def scenario_names Let_def g org_written org_checked l st)
qed

lemma configured_write: "pathConfigWrite test_platform org_data start = (Inr None, configured)"
  using configured_eq by (simp add: configured_def)

lemma configured_state:
  "configured = \<lparr>ext = (ext start)\<lparr>tw_store := [(''config/org'', StoredConfig org_config)]\<rparr>,
     rsaKeyCache = Map.empty, logs = [NonSalesforceHostAllowed ''org'']\<rparr>"
  by (simp add: configured_def configured_eq)

definition app_store :: "(string \<times> stored) list" where
  "app_store = [(''config/org'', StoredConfig org_config), (''role/app'', StoredRole app_role)]"

lemma with_role_eq:
  "pathRoleWrite test_platform app_data configured =
    (Inr None, \<lparr>ext = (ext start)\<lparr>tw_store := app_store\<rparr>,
       rsaKeyCache = Map.empty, logs = [NonSalesforceHostAllowed ''org'']\<rparr>)"
proof -
  have g: "getRole test_platform ''app'' configured = (Inr None, configured)"
    by (simp add: getRole_def st_Get_def configured_state prefix_defs)
  have v: "validateRole test_platform app_role configured = (None, configured)"
    using app_checked scenario_text(1)
    by (simp add: validateRole_def getConfig_def st_Get_def configured_state prefix_defs app_role_def)
  have u: "\<not> UseIntrospection app_role" by (simp add: app_role_def)
  have st: "storeRole test_platform ''app'' app_role configured
      = (Inr None, \<lparr>ext = (ext start)\<lparr>tw_store := app_store\<rparr>,
       rsaKeyCache = Map.empty, logs = [NonSalesforceHostAllowed ''org'']\<rparr>)"
    by (simp add: storeRole_def u st_Put_def deleteCachedToken_def st_Delete_def prefix_defs configured_state
        app_store_def)
  show ?thesis
    by (simp add: pathRoleWrite_def scenario_names Let_def g app_written v st checkImmutable_def)
qed

lemma with_role_write: "pathRoleWrite test_platform app_data configured = (Inr None, with_role)"
  using with_role_eq by (simp add: with_role_def)

lemma with_role_state:
  "with_role = \<lparr>ext = (ext start)\<lparr>tw_store := app_store\<rparr>,
     rsaKeyCache = Map.empty, logs = [NonSalesforceHostAllowed ''org'']\<rparr>"
  by (simp add: with_role_def with_role_eq)

text \<open>A state of the test platform with a given store.\<close>

definition holding :: "(string \<times> stored) list \<Rightarrow> test_engine" where
  "holding st = \<lparr>ext = (ext start)\<lparr>tw_store := st\<rparr>, rsaKeyCache = Map.empty, logs = []\<rparr>"

lemma with_role_contents:
  "configAt test_platform test_view with_role = [''org'' \<mapsto> org_config]"
  "roleAt test_platform test_view with_role = [''app'' \<mapsto> app_role]"
  "tokenAt test_platform test_view with_role = Map.empty"
  using scenario_text
  by (auto simp: with_role_state configAt_def roleAt_def tokenAt_def test_view_def app_store_def prefix_defs fun_eq_iff)

section \<open>The states are reachable\<close>

lemma with_name_request:
  "with_name n (request_data ((''name'', n) # strs) bools ints) = request_data ((''name'', n) # strs) bools ints"
  by (simp add: with_name_def request_data_def fun_eq_iff)

lemma route_config: "route test_platform UpdateOperation ''config/org'' = Some (''org'', pathConfigWrite test_platform)"
  by (simp add: route_def path_tables match_path_def Let_def byte_class_defs)

lemma route_role: "route test_platform UpdateOperation ''roles/app'' = Some (''app'', pathRoleWrite test_platform)"
  by (simp add: route_def path_tables match_path_def Let_def byte_class_defs)

lemma request_step:
  "handleRequest test_platform UpdateOperation ''config/org'' org_data start = Some (Inr None, configured)"
  "handleRequest test_platform UpdateOperation ''roles/app'' app_data configured = Some (Inr None, with_role)"
  using configured_write with_role_write
  by (simp_all add: handleRequest_def route_config route_role org_data_def app_data_def with_name_request)

lemma scenario_reachable:
  "reachable test_platform test_view start" "reachable test_platform test_view configured"
  "reachable test_platform test_view with_role"
proof -
  show s: "reachable test_platform test_view start"
    by (rule reachable.mounted) (simp_all add: start_def test_view_def)
  show c: "reachable test_platform test_view configured"
    using reachable.steps [OF s step.request [OF scenario_data_text(1) request_step(1)]] .
  show "reachable test_platform test_view with_role"
    using reachable.steps [OF c step.request [OF scenario_data_text(2) request_step(2)]] .
qed

end
