(* ===== verification/Admin_Properties.thy ===== *)
theory Admin_Properties
  imports Scenario
begin

text \<open>
  The properties of the administrative paths: \<^verbatim>\<open>config/<name>\<close> and \<^verbatim>\<open>roles/<name>\<close>. Each is stated
  for every platform that meets the contract \<open>barrier\<close> and applied on the test platform.
\<close>

section \<open>The scenario's requests\<close>

text \<open>A request that repoints the org, one that also sends an empty private key, one that adds a CA.\<close>

definition evil_url :: string where
  "evil_url = ''https://evil.example.com''"

definition repoint_data :: field_data where
  "repoint_data = request_data [(''name'', ''org''), (''login_url'', evil_url)] [] []"

definition repoint_key_data :: field_data where
  "repoint_key_data = request_data [(''name'', ''org''), (''login_url'', evil_url), (''private_key'', [])] [] []"

definition rebind_data :: field_data where
  "rebind_data = request_data [(''name'', ''app''), (''config'', ''other'')] [] []"

definition ttl_data :: field_data where
  "ttl_data = request_data [(''name'', ''app'')] [] [(''ttl'', 600), (''max_ttl'', 3600)]"

lemma configured_contents:
  "configAt test_platform test_view configured = [''org'' \<mapsto> org_config]"
  "roleAt test_platform test_view configured = Map.empty"
  using scenario_text
  by (auto simp: configured_state configAt_def roleAt_def test_view_def prefix_defs fun_eq_iff)

lemma start_contents: "configAt test_platform test_view start = Map.empty" "roleAt test_platform test_view start = Map.empty"
  by (simp_all add: start_def configAt_def roleAt_def test_view_def fun_eq_iff)

section \<open>Configurations\<close>

lemma checkConfig_blocked:
  assumes "holdsSecret old" "sensitiveChange old cfg" "\<not> secretReSupplied data"
  shows "checkConfig P data (Some old) cfg \<in> Some ` {LoginURLRequired, ClientIDRequired, SecretResupplyRequired}"
  using assms by (simp add: checkConfig_def baseConfig_def Let_def)

text \<open>
  C4. A write that would repoint the login or token URL, switch on \<^verbatim>\<open>allow_non_salesforce_host\<close>
  or switch on \<^verbatim>\<open>tls_skip_verify\<close> of a configuration that holds a secret, without supplying a
  secret, is refused and leaves the storage as it was.
\<close>

theorem config_write_needs_secret:
  assumes "barrier P view" "pathConfigWrite P data s = (r, s')"
    and "configAt P view s (GetString data ''name'') = Some old" "holdsSecret old"
    and "sensitiveChange old (applyConfigFields data old)" "\<not> secretReSupplied data"
  shows "same_store view s s' \<and> (isOk r \<longrightarrow>
    (\<exists>e \<in> {MissingConfigurationName, LoginURLRequired, ClientIDRequired, SecretResupplyRequired}.
      r = Inr (Some (ErrorResponse e))))"
proof -
  let ?n = "GetString data ''name''"
  obtain g s0 where g: "getConfig P ?n s = (g, s0)" by fastforce
  note gs = barrier.getConfig_spec [OF assms(1) g]
  show ?thesis
  proof (cases "?n = []")
    case True
    then show ?thesis using assms(2) by (auto simp: pathConfigWrite_def)
  next
    case name: False
    show ?thesis
    proof (cases g)
      case (Inl e)
      then show ?thesis using assms(2) g gs name by (auto simp: pathConfigWrite_def)
    next
      case (Inr oc)
      then have oc: "g = Inr (Some old)" using gs(4) assms(3) by simp
      obtain e where "checkConfig P data (Some old) (applyConfigFields data old) = Some e"
        "e \<in> {LoginURLRequired, ClientIDRequired, SecretResupplyRequired}"
        using checkConfig_blocked [OF assms(4-6), of P] by blast
      then show ?thesis
        using assms(2) g gs(1) name unfolding oc by (auto simp: pathConfigWrite_def baseConfig_def)
    qed
  qed
qed

theorem config_write_needs_secret_witness:
  "same_store test_view configured (snd (pathConfigWrite test_platform repoint_data configured))"
proof -
  have n: "GetString repoint_data ''name'' = ''org''" by code_simp
  have "holdsSecret org_config" "sensitiveChange org_config (applyConfigFields repoint_data org_config)"
    "\<not> secretReSupplied repoint_data"
    by code_simp+
  moreover obtain r s' where "pathConfigWrite test_platform repoint_data configured = (r, s')" by fastforce
  ultimately show ?thesis
    using config_write_needs_secret [OF test_storage.barrier_axioms, of repoint_data configured r s' org_config]
    by (simp add: n configured_contents)
qed

text \<open>
  C16. A configuration write that succeeds stores the old configuration with the fields of the
  request in place, which passes every check, touches no other configuration and no role, and
  drops the cached token of exactly the roles bound to the configuration.
\<close>

theorem config_write_stores:
  assumes "barrier P view" "pathConfigWrite P data s = (Inr None, s')" "data_text data"
    and n: "n = GetString data ''name''" and cfg: "cfg = applyConfigFields data (baseConfig (configAt P view s n))"
  shows "configAt P view s' = (configAt P view s)(n \<mapsto> cfg) \<and> config_ok P cfg \<and> roleAt P view s' = roleAt P view s
    \<and> (\<forall>m role. roleAt P view s m = Some role \<longrightarrow> m \<noteq> [] \<longrightarrow> CHR ''/'' \<notin> set m \<longrightarrow>
        tokenAt P view s' m = (if Config role = n then None else tokenAt P view s m))"
proof (rule barrier.pathConfigWrite_cases [OF assms(1,2)])
  fix s1
  assume s1: "GetString data ''name'' \<noteq> []"
    "checkConfig P data (configAt P view s (GetString data ''name'')) (writtenConfig P view data s) = None"
    "same_store view s s1" "storeConfig P (GetString data ''name'') (writtenConfig P view data s) s1 = (Inr None, s')"
  have w: "writtenConfig P view data s = cfg" by (simp add: writtenConfig_def cfg n)
  note spec = barrier.storeConfig_spec [OF assms(1) s1(4) barrier.writtenConfig_text [OF assms(1,3)],
      unfolded same_store_contents [OF s1(3)] w n [symmetric]]
  have ok: "config_ok P cfg" using checkConfig_None(1) s1(2) unfolding cfg n writtenConfig_def .
  have conf: "configAt P view s' m = ((configAt P view s)(n \<mapsto> cfg)) m" for m
    using spec(2,3) by (cases "m = n") simp_all
  have "tokenAt P view s' m = (if Config role = n then None else tokenAt P view s m)"
    if m: "roleAt P view s m = Some role" "m \<noteq> []" "CHR ''/'' \<notin> set m" for m role
  proof (cases "Config role = n")
    case True
    then have "m \<in> bound_roles P view s1 n"
      using m same_store_contents(2) [OF s1(3)] by (simp add: bound_roles_def)
    then show ?thesis using spec(6) [of m] m True same_store_contents(2) [OF s1(3)] by (simp add: bound_roles_def)
  next
    case False
    then have "m \<notin> bound_roles P view s1 n"
      using m same_store_contents(2) [OF s1(3)] by (simp add: bound_roles_def)
    then show ?thesis using spec(5) [of m] False by auto
  qed
  then show ?thesis using ok conf spec(4) by blast
qed simp_all

theorem config_write_stores_witness:
  "configAt test_platform test_view configured ''org'' = Some org_config"
  using config_write_stores [OF test_storage.barrier_axioms configured_write scenario_data_text(1) refl refl]
  by (simp add: scenario_names start_contents org_written)

text \<open>
  C18. Reading a configuration reveals nothing of its secrets but whether they are set: two
  stored configurations that differ in the values of set secrets only give the same response.
\<close>

theorem config_read_hides_secrets:
  assumes "barrier P view" "pathConfigRead P data s = (Inr a, s')" "pathConfigRead P data t = (Inr b, t')"
    and "configAt P view s (GetString data ''name'') = Some c"
    and "configAt P view t (GetString data ''name'') = Some (c\<lparr>ClientSecret := x, PrivateKey := y\<rparr>)"
    and "x = [] \<longleftrightarrow> ClientSecret c = []" "y = [] \<longleftrightarrow> PrivateKey c = []"
  shows "a = b"
  using barrier.pathConfigRead_spec(3) [OF assms(1,2) refl] barrier.pathConfigRead_spec(3) [OF assms(1,3) refl] assms(4-7)
  by (simp add: redactedMap_def tokenURL_def)

theorem config_read_hides_secrets_witness:
  "fst (pathConfigRead test_platform (name_data ''org'') configured)
    = fst (pathConfigRead test_platform (name_data ''org'')
        (holding [(''config/org'', StoredConfig (org_config\<lparr>ClientSecret := ''other'', PrivateKey := []\<rparr>))]))"
proof -
  let ?t = "holding [(''config/org'', StoredConfig (org_config\<lparr>ClientSecret := ''other'', PrivateKey := []\<rparr>))]"
  have ok: "config_text (org_config\<lparr>ClientSecret := ''other'', PrivateKey := []\<rparr>)" by code_simp
  have t: "configAt test_platform test_view ?t ''org'' = Some (org_config\<lparr>ClientSecret := ''other'', PrivateKey := []\<rparr>)"
    using ok by (simp add: configAt_def holding_def test_view_def prefix_defs)
  obtain a s' where a: "pathConfigRead test_platform (name_data ''org'') configured = (Inr a, s')"
    using scenario_text
    by (simp add: pathConfigRead_def getConfig_def st_Get_def scenario_names configured_state prefix_defs)
  obtain b t' where b: "pathConfigRead test_platform (name_data ''org'') ?t = (Inr b, t')"
    using ok by (simp add: pathConfigRead_def getConfig_def st_Get_def scenario_names holding_def prefix_defs)
  have "ClientSecret org_config \<noteq> []" "PrivateKey org_config = []" by code_simp+
  then have "a = b"
    using t by (intro config_read_hides_secrets [OF test_storage.barrier_axioms a b, where c = org_config and x = "''other''" and y = "[]"])
      (simp_all add: scenario_names configured_contents)
  then show ?thesis using a b by simp
qed

text \<open>Without its configuration a role issues no token.\<close>

lemma unconfigured_role_read:
  assumes "barrier P view" "configAt P view t (Config role) = None" "roleAt P view t m = Some role"
    and "pathCredsRead P d t = (q, t')" "m = GetString d ''name''"
  shows "same_store view t t' \<and> (isOk q \<longrightarrow> q = Inr (Some (ErrorResponse (ConfigForRoleDoesNotExist (Config role) m))))"
proof -
  obtain g s0 where g: "getRole P m t = (g, s0)" by fastforce
  note gs = barrier.getRole_spec [OF assms(1) g]
  obtain c s1 where c: "getConfig P (Config role) s0 = (c, s1)" by fastforce
  note cs = barrier.getConfig_spec [OF assms(1) c]
  have none: "c = Inr oc \<Longrightarrow> oc = None" for oc
    using cs(4) same_store_contents(1) [OF gs(1)] assms(2) by fastforce
  show ?thesis
  proof (cases g)
    case (Inl e)
    then show ?thesis using assms(4,5) g gs(1) by (auto simp: pathCredsRead_def)
  next
    case (Inr og)
    then have "g = Inr (Some role)" using gs(4) assms(3) by simp
    then show ?thesis
      using assms(4,5) g c none same_store_trans [OF gs(1) cs(1)]
      by (cases c) (auto simp: pathCredsRead_def)
  qed
qed

text \<open>
  C19. Deleting a configuration removes it and the cached tokens of the roles bound to it, and
  keeps every other configuration and every role. The roles are cut off: in that state and in
  every other without the configuration, a credential read of a role bound to it changes nothing
  and reports the missing configuration, unless the storage fails. (Writing the configuration
  again revives the roles.)
\<close>

theorem config_delete_cuts_off_roles:
  assumes "barrier P view" "pathConfigDelete P data s = (r, s')" "isOk r"
    and n: "n = GetString data ''name''"
  shows "r = Inr None \<and> configAt P view s' = (configAt P view s)(n := None) \<and> roleAt P view s' = roleAt P view s
    \<and> (\<forall>m role. roleAt P view s m = Some role \<longrightarrow> Config role = n \<longrightarrow> m \<noteq> [] \<longrightarrow> CHR ''/'' \<notin> set m \<longrightarrow>
        tokenAt P view s' m = None)
    \<and> (\<forall>t d role q t'. configAt P view t n = None \<longrightarrow> roleAt P view t (GetString d ''name'') = Some role \<longrightarrow>
        Config role = n \<longrightarrow> pathCredsRead P d t = (q, t') \<longrightarrow> same_store view t t'
        \<and> (isOk q \<longrightarrow> q = Inr (Some (ErrorResponse (ConfigForRoleDoesNotExist n (GetString d ''name''))))))"
proof -
  note spec = barrier.pathConfigDelete_spec [OF assms(1,2) n]
  have conf: "configAt P view s' = (configAt P view s)(n := None)"
    using spec(1) spec(5) [OF assms(3)] by (auto simp: fun_eq_iff)
  have toks: "tokenAt P view s' m = None"
    if "roleAt P view s m = Some role" "Config role = n" "m \<noteq> []" "CHR ''/'' \<notin> set m" for m role
    using spec(6) [OF assms(3)] that by (auto simp: bound_roles_def)
  show ?thesis
    using spec(3,5) assms(3) conf toks unconfigured_role_read [OF assms(1)] by blast
qed

theorem config_delete_cuts_off_roles_witness:
  "let s = snd (pathConfigDelete test_platform (name_data ''org'') with_role)
   in configAt test_platform test_view s = Map.empty
     \<and> fst (pathCredsRead test_platform (name_data ''app'') s)
       = Inr (Some (ErrorResponse (ConfigForRoleDoesNotExist ''org'' ''app'')))"
proof -
  obtain s' where s': "pathConfigDelete test_platform (name_data ''org'') with_role = (Inr None, s')"
    and gone: "map_of (tw_store (ext s')) ''config/org'' = None"
    using scenario_text
    by (simp add: pathConfigDelete_def Let_def scenario_names deleteCachedTokensForConfig_def st_List_def
        test_list_def with_role_state app_store_def HasPrefix_def prefix_defs delete_token_if_bound_def
        getRole_def st_Get_def deleteCachedToken_def st_Delete_def)
  have org: "Config app_role = ''org''" by code_simp
  note cut = config_delete_cuts_off_roles [OF test_storage.barrier_axioms s' _ refl, simplified scenario_names]
  have config: "configAt test_platform test_view s' = Map.empty" and role: "roleAt test_platform test_view s' ''app'' = Some app_role"
    using cut by (simp_all add: with_role_contents)
  have "getRole test_platform ''app'' s' = (Inr (Some app_role), s')"
    using role by (auto simp: roleAt_def test_view_def bind_eq_Some_conv getRole_def st_Get_def)
  then have ok: "isOk (fst (pathCredsRead test_platform (name_data ''app'') s'))"
    using gone by (simp add: pathCredsRead_def Let_def scenario_names org getConfig_def st_Get_def prefix_defs)
  obtain q t where q: "pathCredsRead test_platform (name_data ''app'') s' = (q, t)" by fastforce
  have "\<forall>t d role q t'. configAt test_platform test_view t ''org'' = None \<longrightarrow>
      roleAt test_platform test_view t (GetString d ''name'') = Some role \<longrightarrow> Config role = ''org'' \<longrightarrow>
      pathCredsRead test_platform d t = (q, t') \<longrightarrow> isOk q \<longrightarrow>
      q = Inr (Some (ErrorResponse (ConfigForRoleDoesNotExist ''org'' (GetString d ''name''))))"
    using cut by simp
  from this [rule_format, OF _ _ org q] have "q = Inr (Some (ErrorResponse (ConfigForRoleDoesNotExist ''org'' ''app'')))"
    using ok config role q by (simp add: scenario_names)
  then show ?thesis using s' config q by (simp add: Let_def)
qed

text \<open>
  C40. The re-supply guard looks for some secret in the request, not for the one that is kept. A
  write that names \<^verbatim>\<open>private_key\<close>, with whatever value, and leaves \<^verbatim>\<open>client_secret\<close> out may repoint a
  configuration that holds a client secret: if the new configuration passes the other checks, the
  write is not refused, and what it stores has the new endpoint and the old client secret.
\<close>

theorem resupply_guard_accepts_other_secret:
  assumes "barrier P view" "pathConfigWrite P data s = (r, s')" "data_text data" "isOk r"
    and n: "n = GetString data ''name''" "n \<noteq> []" and "configAt P view s n = Some old" "ClientSecret old \<noteq> []"
    and "GetOkString data ''private_key'' \<noteq> None" "GetOkString data ''client_secret'' = None"
    and cfg: "cfg = applyConfigFields data old" "config_ok P cfg"
  shows "r = Inr None \<and> configAt P view s' n = Some cfg \<and> ClientSecret cfg = ClientSecret old
    \<and> (\<forall>url. GetOkString data ''login_url'' = Some url \<longrightarrow> LoginURL cfg = url)"
proof -
  obtain g s0 where g: "getConfig P n s = (g, s0)" by fastforce
  note gs = barrier.getConfig_spec [OF assms(1) g]
  have old: "g = Inr (Some old)"
    using assms(2,4,7) n g gs(4) by (cases g) (auto simp: pathConfigWrite_def)
  have "secretReSupplied data" using assms(9) by (auto simp: secretReSupplied_def)
  then have "checkConfig P data (Some old) cfg = None"
    using cfg by (auto simp: checkConfig_def config_ok_def Let_def)
  then have st: "storeConfig P n cfg (logConfigTransitions P n (Some old) cfg s0) = (r, s')"
    using assms(2) n g old cfg(1) by (auto simp: pathConfigWrite_def baseConfig_def Let_def)
  have "config_text old" using barrier.configAt_text [OF assms(1,7)] .
  then have "config_text cfg" using applyConfigFields_text [OF _ assms(3)] cfg(1) by simp
  note spec = barrier.storeConfig_spec [OF assms(1) st this]
  have "r = Inr None" using spec(7) assms(4) by auto
  then show ?thesis
    using spec(2) assms(10) cfg(1) by (auto simp: applyConfigFields_def supplied_def)
qed

text \<open>The org of the scenario is repointed with an empty private key; the stored secret goes along.\<close>

theorem resupply_guard_accepts_other_secret_witness:
  "\<exists>c. configAt test_platform test_view (snd (pathConfigWrite test_platform repoint_key_data configured)) ''org'' = Some c
    \<and> ClientSecret c = ''pw'' \<and> LoginURL c = evil_url \<and> sensitiveChange org_config c"
proof -
  let ?c = "applyConfigFields repoint_key_data org_config"
  have n: "GetString repoint_key_data ''name'' = ''org''" by code_simp
  have d: "data_text repoint_key_data" unfolding repoint_key_data_def by (rule request_data_text) code_simp
  have c: "config_ok test_platform ?c" "checkConfig test_platform repoint_key_data (Some org_config) ?c = None"
    "sensitiveChange org_config ?c" "ClientSecret org_config = ''pw''"
    "GetOkString repoint_key_data ''private_key'' \<noteq> None" "GetOkString repoint_key_data ''client_secret'' = None"
    "GetOkString repoint_key_data ''login_url'' = Some evil_url"
    by code_simp+
  obtain r s' where w: "pathConfigWrite test_platform repoint_key_data configured = (r, s')" by fastforce
  have g: "getConfig test_platform ''org'' configured = (Inr (Some org_config), configured)"
    using scenario_text by (simp add: getConfig_def st_Get_def configured_state prefix_defs)
  have "pathConfigWrite test_platform repoint_key_data configured
      = storeConfig test_platform ''org'' ?c (logConfigTransitions test_platform ''org'' (Some org_config) ?c configured)"
    by (simp add: pathConfigWrite_def n g c(2) Let_def baseConfig_def)
  then have "isOk (fst (pathConfigWrite test_platform repoint_key_data configured))"
    by (simp add: storeConfig_def st_Put_def deleteCachedTokensForConfig_def st_List_def test_list_def
        logConfigTransitions_frame configured_state prefix_defs start_def HasPrefix_def)
  then have "isOk r" using w by simp
  then show ?thesis
    using resupply_guard_accepts_other_secret [OF test_storage.barrier_axioms w d _ refl _ _ _ c(5,6) refl c(1)] w c(3,4,7)
    by (auto simp: n configured_contents)
qed

text \<open>A token URL with a trailing slash, next to a login URL that is not a Salesforce one.\<close>

definition slash_config :: salesforceConfig where
  "slash_config = \<lparr>LoginURL = evil_url, TokenURL = ''https://login.salesforce.com/services/oauth2/token/'',
     ClientID = ''id'', ClientSecret = ''pw'', PrivateKey = [], CACert = [], TLSSkipVerify = False,
     AllowNonSalesforceHost = False\<rparr>"

text \<open>
  The host of the revocation endpoint is not validated when it falls back to the login URL:
  an accepted configuration without opt-out can have a revocation endpoint that the allowlist
  rejects.
\<close>

lemma revoke_endpoint_unvalidated:
  "config_ok test_platform slash_config \<and> \<not> AllowNonSalesforceHost slash_config
   \<and> revokeURL slash_config = evil_url @ ''/services/oauth2/revoke''
   \<and> validateTokenHost (Unicode_ToLower test_platform) (revokeURL slash_config) False
     = Some (NotSalesforceHost ''evil.example.com'')"
  by code_simp

section \<open>Roles\<close>

text \<open>
  C17. A role write that succeeds stores the old role with the fields of the request in place,
  which passes every check of \<^verbatim>\<open>validateRole\<close>; the bound configuration exists and has the secret
  the grant flow needs; the cached token of the role is dropped and nothing else changes; the
  only warning is the one about introspection.
\<close>

theorem role_write_stores:
  assumes "barrier P view" "pathRoleWrite P data s = (r, s')" "data_text data"
    and "isOk r" "\<forall>e. r \<noteq> Inr (Some (ErrorResponse e))"
    and n: "n = GetString data ''name''" and role: "role = applyRoleFields data (baseRole (roleAt P view s n))"
  shows "roleAt P view s' = (roleAt P view s)(n \<mapsto> role) \<and> role_ok role
    \<and> (\<exists>cfg. configAt P view s (Config role) = Some cfg
        \<and> (if GrantType role = grantJWTBearer then PrivateKey cfg \<noteq> [] else ClientSecret cfg \<noteq> []))
    \<and> configAt P view s' = configAt P view s \<and> tokenAt P view s' = (tokenAt P view s)(n := None)
    \<and> r = Inr (if UseIntrospection role then Some IntrospectionWarning else None)"
proof (rule barrier.pathRoleWrite_cases [OF assms(1,2)])
  fix s1 cfg
  assume st: "configAt P view s (Config (writtenRole P view data s)) = Some cfg"
      "checkRoleFields (writtenRole P view data s) = None"
      "checkGrantMaterial (writtenRole P view data s) cfg = None"
      "same_store view s s1"
      "storeRole P (GetString data ''name'') (writtenRole P view data s) s1 = (r, s')"
  have w: "writtenRole P view data s = role" by (simp add: writtenRole_def role n)
  note spec = barrier.storeRole_spec [OF assms(1) st(5) barrier.writtenRole_text [OF assms(1,3)],
      unfolded same_store_contents [OF st(4)] w n [symmetric]]
  have "GrantType role = grantJWTBearer \<or> GrantType role = grantClientCredential"
    using st(2) unfolding w by (auto simp: checkRoleFields_def split: if_splits)
  then have mat: "role_ok role" "if GrantType role = grantJWTBearer then PrivateKey cfg \<noteq> [] else ClientSecret cfg \<noteq> []"
    using st(2,3) unfolding w by (auto simp: role_ok_def checkGrantMaterial_def split: if_splits)
  have roles: "roleAt P view s' m = ((roleAt P view s)(n \<mapsto> role)) m" for m
    using spec(2) [OF assms(4)] spec(3) [of m] by (cases "m = n") simp_all
  have toks: "tokenAt P view s' m = ((tokenAt P view s)(n := None)) m" for m
    using spec(2) [OF assms(4)] spec(5) [where m = m] by (cases "m = n") auto
  show ?thesis
    using roles toks mat st(1) spec(2) [OF assms(4)] spec(4) unfolding w by blast
qed (use assms(4,5) in auto)

theorem role_write_stores_witness:
  "roleAt test_platform test_view with_role ''app'' = Some app_role \<and> role_ok app_role"
  using role_write_stores [OF test_storage.barrier_axioms with_role_write scenario_data_text(2) _ _ refl refl]
  by (simp add: scenario_names configured_contents app_written)

text \<open>
  C10. The identity of an existing role is immutable: a write that changes the run-as user or the
  bound configuration is refused with the matching error and stores nothing.
\<close>

theorem role_identity_immutable:
  assumes "barrier P view" "pathRoleWrite P data s = (r, s')" "isOk r"
    and n: "n = GetString data ''name''" "n \<noteq> []" "roleAt P view s n = Some old"
    and change: "Username (applyRoleFields data old) \<noteq> Username old \<or> Config (applyRoleFields data old) \<noteq> Config old"
  shows "same_store view s s' \<and> r = Inr (Some (ErrorResponse
    (if Username (applyRoleFields data old) \<noteq> Username old then UsernameImmutable else ConfigImmutable)))"
proof -
  obtain g s0 where g: "getRole P n s = (g, s0)" by fastforce
  note gs = barrier.getRole_spec [OF assms(1) g]
  have "g = Inr (Some old)" using assms(2,3) n g gs(4) by (cases g) (auto simp: pathRoleWrite_def)
  then show ?thesis
    using assms(2) n change g gs(1) by (auto simp: pathRoleWrite_def baseRole_def checkImmutable_def)
qed

theorem role_identity_immutable_witness:
  "fst (pathRoleWrite test_platform rebind_data with_role) = Inr (Some (ErrorResponse ConfigImmutable))"
proof -
  have n: "GetString rebind_data ''name'' = ''app''" by code_simp
  have ch: "Username (applyRoleFields rebind_data app_role) = Username app_role"
    "Config (applyRoleFields rebind_data app_role) \<noteq> Config app_role"
    by code_simp+
  obtain r s' where w: "pathRoleWrite test_platform rebind_data with_role = (r, s')" by fastforce
  have "isOk r"
    using w ch scenario_text
    by (auto simp: pathRoleWrite_def n getRole_def st_Get_def with_role_state app_store_def prefix_defs
        baseRole_def checkImmutable_def)
  then show ?thesis
    using role_identity_immutable [OF test_storage.barrier_axioms w _ refl, of app_role] w ch
    by (simp add: n with_role_contents)
qed

lemma roleMap_duration:
  assumes "k \<in> {''token_ttl'', ''ttl'', ''max_ttl'', ''renew_skew'', ''jwt_expiry''}" "GetOkInt data k = Some v"
  shows "roleMap (applyRoleFields data r) k = Some (RInt (whole_seconds (secs v)))"
  using assms
  by (elim insertE emptyE)
    (simp_all add: roleMap_def applyRoleFields_def durationOrDefault_def durationField_def)

text \<open>
  C34. Durations survive a write and a read: each duration field the request sets, within the
  range of whole seconds a 64-bit nanosecond count can hold, is reported unchanged by the next
  read of the role.
\<close>

theorem role_durations_roundtrip:
  assumes "barrier P view" "pathRoleWrite P data s = (Inr None, s')" "data_text data"
    and "pathRoleRead P data s' = (Inr res, s2)"
    and "GetOkInt data k = Some v" "\<bar>v\<bar> \<le> max_whole_seconds"
    and "k \<in> {''token_ttl'', ''ttl'', ''max_ttl'', ''renew_skew'', ''jwt_expiry''}"
  shows "\<exists>m. res = Some (DataResponse m) \<and> m k = Some (RInt v)"
proof (rule barrier.pathRoleWrite_cases [OF assms(1,2)])
  fix s1 cfg
  assume "same_store view s s1"
    and st: "storeRole P (GetString data ''name'') (writtenRole P view data s) s1 = (Inr None, s')"
  have "roleAt P view s' (GetString data ''name'') = Some (writtenRole P view data s)"
    using barrier.storeRole_spec(2) [OF assms(1) st barrier.writtenRole_text [OF assms(1,3)]] by simp
  then have "res = Some (DataResponse (roleMap (writtenRole P view data s)))"
    using barrier.pathRoleRead_spec(3) [OF assms(1,4) refl] by simp
  moreover have "roleMap (writtenRole P view data s) k = Some (RInt v)"
    using roleMap_duration [OF assms(7,5)] whole_seconds_secs [OF assms(6)] by (simp add: writtenRole_def)
  ultimately show ?thesis by blast
qed simp_all

theorem role_durations_roundtrip_witness:
  "\<exists>m. fst (pathRoleRead test_platform ttl_data (snd (pathRoleWrite test_platform ttl_data with_role)))
    = Inr (Some (DataResponse m)) \<and> m ''max_ttl'' = Some (RInt 3600)"
proof -
  let ?ro = "applyRoleFields ttl_data app_role"
  have n: "GetString ttl_data ''name'' = ''app''" by code_simp
  have d: "data_text ttl_data" unfolding ttl_data_def by (rule request_data_text) code_simp
  have ch: "checkImmutable (Some app_role) ?ro = None" "checkRoleFields ?ro = None"
    "checkGrantMaterial ?ro org_config = None" "role_text ?ro" "Config ?ro = ''org''" "\<not> UseIntrospection ?ro"
    by code_simp+
  obtain s' where w: "pathRoleWrite test_platform ttl_data with_role = (Inr None, s')"
    and s': "map_of (tw_store (ext s')) ''role/app'' = Some (StoredRole ?ro)"
    using ch scenario_text
    by (simp add: pathRoleWrite_def n getRole_def st_Get_def with_role_state app_store_def prefix_defs
        baseRole_def validateRole_def getConfig_def storeRole_def st_Put_def deleteCachedToken_def st_Delete_def)
  obtain res s2 where rd: "pathRoleRead test_platform ttl_data s' = (Inr res, s2)"
    using s' ch(4) by (simp add: pathRoleRead_def n getRole_def st_Get_def prefix_defs)
  have "GetOkInt ttl_data ''max_ttl'' = Some 3600" by code_simp
  then show ?thesis
    using role_durations_roundtrip [OF test_storage.barrier_axioms w d rd, of "''max_ttl''" 3600] w rd
    by (simp add: max_whole_seconds_def)
qed

text \<open>
  C38. What an update does to each duration of a role, whatever other fields it sets: a duration
  the request sets replaces the stored one, one it leaves out keeps its value, except that a
  stored zero of \<^verbatim>\<open>token_ttl\<close>, \<^verbatim>\<open>renew_skew\<close> or \<^verbatim>\<open>jwt_expiry\<close> (also one that was set explicitly) is
  replaced by the default of the schema: 900, 60 and 180 seconds.
\<close>

theorem role_update_defaults:
  assumes "respects_schema roleFields data"
  shows "TokenTTL (applyRoleFields data r) = (case GetOkInt data ''token_ttl'' of
      Some v \<Rightarrow> secs v | None \<Rightarrow> if TokenTTL r = 0 then 900 * time_Second else TokenTTL r)
    \<and> RenewSkew (applyRoleFields data r) = (case GetOkInt data ''renew_skew'' of
      Some v \<Rightarrow> secs v | None \<Rightarrow> if RenewSkew r = 0 then 60 * time_Second else RenewSkew r)
    \<and> JWTExpiry (applyRoleFields data r) = (case GetOkInt data ''jwt_expiry'' of
      Some v \<Rightarrow> secs v | None \<Rightarrow> if JWTExpiry r = 0 then 180 * time_Second else JWTExpiry r)
    \<and> TTL (applyRoleFields data r) = (case GetOkInt data ''ttl'' of Some v \<Rightarrow> secs v | None \<Rightarrow> TTL r)
    \<and> MaxTTL (applyRoleFields data r) = (case GetOkInt data ''max_ttl'' of Some v \<Rightarrow> secs v | None \<Rightarrow> MaxTTL r)"
proof -
  have default: "GetInt data k = v"
    if "(k, \<lparr>field_type_of = TypeDurationSecond, field_default = Some (RInt v)\<rparr>) \<in> set roleFields" "GetOkInt data k = None"
    for k v
    using assms(1) that by (force simp: respects_schema_def list_all_iff)
  have "GetOkInt data ''token_ttl'' = None \<Longrightarrow> GetInt data ''token_ttl'' = 900"
    "GetOkInt data ''renew_skew'' = None \<Longrightarrow> GetInt data ''renew_skew'' = 60"
    "GetOkInt data ''jwt_expiry'' = None \<Longrightarrow> GetInt data ''jwt_expiry'' = 180"
    by (rule default; simp add: roleFields_def)+
  then show ?thesis
    by (simp add: applyRoleFields_def durationOrDefault_def durationField_def secs_exact max_whole_seconds_def
        split: option.splits)
qed

theorem role_update_defaults_witness:
  "RenewSkew (applyRoleFields ttl_data (app_role\<lparr>RenewSkew := 0\<rparr>)) = 60 * time_Second
    \<and> MaxTTL (applyRoleFields ttl_data (app_role\<lparr>RenewSkew := 0\<rparr>)) = secs 3600"
proof -
  have "respects_schema roleFields ttl_data" "GetOkInt ttl_data ''renew_skew'' = None"
    "GetOkInt ttl_data ''max_ttl'' = Some 3600"
    by code_simp+
  then show ?thesis using role_update_defaults [of ttl_data "app_role\<lparr>RenewSkew := 0\<rparr>"] by simp
qed

end
