(* ===== verification/Token_Properties.thy ===== *)
theory Token_Properties
  imports Scenario
begin

text \<open>
  The properties of the token requests (\<^verbatim>\<open>client.go\<close>, \<^verbatim>\<open>jwt.go\<close>), of issuing tokens
  (\<^verbatim>\<open>path_creds.go\<close>) and of ending their life (\<^verbatim>\<open>path_rotate.go\<close>, \<^verbatim>\<open>secret_access_token.go\<close>). The
  histories are those of the contract \<open>observed\<close>; every property is applied on the test platform.
\<close>

section \<open>The scenario's token\<close>

definition app_token :: cachedToken where
  "app_token = \<lparr>ctAccessToken = ''tok'', ctInstanceURL = mock_url, ctTokenType = ''Bearer'', ctScope = [],
     IssuedAt = 1700000000 * time_Second, ExpiresAt = 1700000900 * time_Second\<rparr>"

text \<open>The state in which the role of the scenario has that token.\<close>

definition cached_app :: test_engine where
  "cached_app = holding (app_store @ [(''cache/app'', StoredToken app_token)])"

lemma app_token_text: "token_text app_token"
  by code_simp

lemma cached_app_contents:
  "configAt test_platform test_view cached_app = [''org'' \<mapsto> org_config]"
  "roleAt test_platform test_view cached_app = [''app'' \<mapsto> app_role]"
  "tokenAt test_platform test_view cached_app = [''app'' \<mapsto> app_token]"
  using scenario_text app_token_text
  by (auto simp: cached_app_def holding_def configAt_def roleAt_def tokenAt_def test_view_def app_store_def
      prefix_defs fun_eq_iff)

lemma plain_keys: "key_cache_ok test_platform cached_app" "key_cache_ok test_platform with_role"
  by (simp_all add: key_cache_ok_def cached_app_def holding_def with_role_state)

lemma cached_app_ok: "plugin_ok test_platform test_view cached_app"
proof -
  have "config_ok test_platform org_config" "role_ok app_role" "ctAccessToken app_token \<noteq> []" by code_simp+
  then show ?thesis
    using plain_keys by (simp add: plugin_ok_def configs_ok_def roles_ok_def tokens_ok_def cached_app_contents)
qed

lemma fresh_read:
  assumes "fresh app_token (1700000000 * time_Second) (RenewSkew app_role)"
  shows "pathCredsRead test_platform (name_data ''app'') cached_app
    = (Inr (Some (SecretResponse (credsData app_role app_token True) (credsSecret ''app'' app_role))), cached_app)"
proof -
  have org: "Config app_role = ''org''" by (simp add: app_role_def)
  show ?thesis
    using assms scenario_text app_token_text org
    by (simp add: pathCredsRead_def scenario_names cached_app_def holding_def getRole_def getConfig_def st_Get_def
        app_store_def prefix_defs issueToken_def getCachedToken_def ifFresh_def now_def start_def Let_def)
qed

lemma app_token_fresh: "fresh app_token (1700000000 * time_Second) (RenewSkew app_role)"
  by code_simp

section \<open>Requests to the token endpoint\<close>






text \<open>Where the context never ends, the loop gives up on a retryable reply only at its last attempt.\<close>

definition decides :: "nat \<Rightarrow> (http_client \<times> http_request \<times> (gerror + http_response)) list \<Rightarrow> gerror + tokenResult \<Rightarrow> bool" where
  "decides n xs r \<longleftrightarrow> xs \<noteq> [] \<and> length xs \<le> n
    \<and> (\<forall>(cl, rq, rep) \<in> set (butlast xs). \<exists>e. reply_outcome rep = Inl (e, True))
    \<and> (case reply_outcome (snd (snd (last xs))) of
         Inr res \<Rightarrow> r = Inr res
       | Inl (e, retryable) \<Rightarrow> r = Inl e \<and> (retryable \<longrightarrow> length xs = n))"

lemma decides_one:
  "reply_outcome rep = Inr res \<Longrightarrow> decides (Suc k) [(cl, rq, rep)] (Inr res)"
  "reply_outcome rep = Inl (e, b) \<Longrightarrow> \<not> b \<or> k = 0 \<Longrightarrow> decides (Suc k) [(cl, rq, rep)] (Inl e)"
  by (auto simp: decides_def)

lemma decides_Cons:
  "reply_outcome rep = Inl (e, True) \<Longrightarrow> decides n xs r \<Longrightarrow> decides (Suc n) ((cl, rq, rep) # xs) r"
  by (auto simp: decides_def split: sum.splits)

context observed
begin

lemma beforeAttempt_persists:
  assumes "a \<le> 2" and waits: "\<And>d w. fst (Wait_After P d w) = None"
  obtains s0 evs where "beforeAttempt P a s = (None, s0)" "added trace clk evs s s0" "posts evs = []"
proof (cases a)
  case 0
  then show thesis using that [of s "[]"] by (simp add: beforeAttempt_def)
next
  case (Suc i)
  obtain w s0 where w: "waitBackoff P a s = (w, s0)" by fastforce
  obtain d where "added trace clk [Waited d] s s0" using waitBackoff_adds(1) [OF w] assms(1) Suc by auto
  moreover have "w = None"
    using w waits by (auto simp: waitBackoff_def split: prod.splits) (metis fst_conv option.distinct(1))
  ultimately show thesis using that [of s0 "[Waited d]"] w Suc by (simp add: beforeAttempt_def)
qed

lemma doTokenRequestOnce_persists:
  assumes "newPost (tokenURL cfg) f tokenHeaders = Inr rq" and ctx: "\<And>w. fst (Ctx_Err P w) = None"
  obtains rep s' where "doTokenRequestOnce P cl cfg f s = (reply_outcome rep, s')" "added trace clk [Sent cl rq rep] s s'"
proof -
  obtain rep s1 where h: "do_http P cl rq s = (rep, s1)" by fastforce
  obtain s2 where c: "ctx_Err P s1 = (None, s2)"
    using ctx [of "ext s1"] by (cases "Ctx_Err P (ext s1)") (simp add: ctx_Err_def)
  have "added trace clk [Sent cl rq rep] s s1" "added trace clk [Sent cl rq rep] s s2"
    using do_http_adds(1) [OF h] added_quiet_right [OF _ ctx_Err_quiet [OF c]] by blast+
  then show thesis
    using that [of rep] h c assms(1) by (cases rep) (auto simp: doTokenRequestOnce_def)
qed

lemma tokenAttempts_persists:
  assumes "tokenAttempts P cl cfg f a k s = (r, s')" "newPost (tokenURL cfg) f tokenHeaders = Inr rq" "a + k \<le> 2"
    and waits: "\<And>d w. fst (Wait_After P d w) = None" and ctx: "\<And>w. fst (Ctx_Err P w) = None"
  shows "\<exists>evs. added trace clk evs s s' \<and> decides (Suc k) (posts evs) r"
  using assms(1,3)
proof (induction k arbitrary: a s)
  case 0
  obtain s0 evs where b: "beforeAttempt P a s = (None, s0)" "added trace clk evs s s0" "posts evs = []"
    using beforeAttempt_persists [OF _ waits, of a s] 0 by auto
  obtain rep s1 where o: "doTokenRequestOnce P cl cfg f s0 = (reply_outcome rep, s1)" "added trace clk [Sent cl rq rep] s0 s1"
    using doTokenRequestOnce_persists [OF assms(2) ctx] by metis
  have "s' = s1 \<and> decides (Suc 0) [(cl, rq, rep)] r"
    using 0 b(1) o(1) decides_one [of rep]
    by (auto simp: tokenAttempts.simps [of P cl cfg f a 0 s] split: sum.splits if_splits)
  then show ?case using added_trans [OF b(2) o(2)] b(3) by (intro exI [of _ "evs @ [Sent cl rq rep]"]) simp
next
  case (Suc k)
  obtain s0 evs where b: "beforeAttempt P a s = (None, s0)" "added trace clk evs s s0" "posts evs = []"
    using beforeAttempt_persists [OF _ waits, of a s] Suc(3) by auto
  obtain rep s1 where o: "doTokenRequestOnce P cl cfg f s0 = (reply_outcome rep, s1)" "added trace clk [Sent cl rq rep] s0 s1"
    using doTokenRequestOnce_persists [OF assms(2) ctx] by metis
  note step = tokenAttempts.simps [of P cl cfg f a "Suc k" s]
  show ?case
  proof (cases "\<exists>e. reply_outcome rep = Inl (e, True)")
    case True
    then have "tokenAttempts P cl cfg f (Suc a) k s1 = (r, s')" using Suc(2) b(1) o(1) step by auto
    then obtain evs' where "added trace clk evs' s1 s'" "decides (Suc k) (posts evs') r" using Suc(1,3) by force
    then show ?thesis
      using True added_trans [OF added_trans [OF b(2) o(2)]] decides_Cons b(3)
      by (intro exI [of _ "(evs @ [Sent cl rq rep]) @ evs'"]) auto
  next
    case False
    then have "s' = s1 \<and> decides (Suc (Suc k)) [(cl, rq, rep)] r"
      using Suc(2) b(1) o(1) step decides_one [of rep] by (auto split: sum.splits if_splits)
    then show ?thesis using added_trans [OF b(2) o(2)] b(3) by (intro exI [of _ "evs @ [Sent cl rq rep]"]) simp
  qed
qed

end

text \<open>
  C36. How a refusal of the token endpoint is classified: any status but 200 becomes an OAuth
  error with that status, whatever the body holds, which is retried and counts as transient
  exactly when the status is 429 or at least 500.
\<close>

theorem token_error_classified:
  assumes "ResponseBody resp = Inr body" "Status resp \<noteq> 200"
  shows "\<exists>e. readTokenResponse resp = Inl (OAuthError e, isRetryableStatus (Status resp)) \<and> StatusCode e = Status resp
    \<and> (isTransientMintError (OAuthError e) \<longleftrightarrow> Status resp = 429 \<or> 500 \<le> Status resp)"
proof -
  obtain e where "parseTokenError (Status resp) (take max_body body) = OAuthError e" "StatusCode e = Status resp"
    using parseTokenError_status by blast
  then show ?thesis
    using assms by (simp add: readTokenResponse_def Let_def isTransientMintError_def isRetryableStatus_def)
qed

theorem token_error_classified_witness:
  "\<exists>e. readTokenResponse \<lparr>Status = 503, ResponseBody = Inr ''busy''\<rparr> = Inl (OAuthError e, isRetryableStatus 503)"
  using token_error_classified [of "\<lparr>Status = 503, ResponseBody = Inr ''busy''\<rparr>" "''busy''"] by auto

text \<open>
  C28. A role that passed the checks gets an assertion whose expiry is in the future and at most
  five minutes ahead, in the whole seconds of the claim.
\<close>

theorem jwt_expiry_window:
  assumes "role_ok role" "JWTExpiry role \<le> 0 \<or> time_Second \<le> JWTExpiry role"
  shows "Time_Unix t < exp_claim (jwtClaims cfg role t) \<and> exp_claim (jwtClaims cfg role t) \<le> Time_Unix t + 300"
  using jwtClaims_window [OF assms] by simp

theorem jwt_expiry_window_witness:
  "Time_Unix 0 < exp_claim (jwtClaims org_config app_role 0)"
proof -
  have "role_ok app_role" "JWTExpiry app_role \<le> 0 \<or> time_Second \<le> JWTExpiry app_role" by code_simp+
  then show ?thesis using jwt_expiry_window by blast
qed

text \<open>
  C35. The memo table of parsed keys is transparent: in every reachable state, parsing a key
  through the table gives what the library gives, and the table stays consistent.
\<close>

theorem key_memo_transparent:
  assumes "serial P view trace clk" "reachable P view s" "parseRSAPrivateKey P pem s = (r, s')"
  shows "r = parseRSADirect P pem \<and> key_cache_ok P s'"
proof -
  have "key_cache_ok P s" using serial.reachable_ok [OF assms(1,2)] by (simp add: plugin_ok_def)
  then show ?thesis using parseRSAPrivateKey_direct [OF _ assms(3)] by blast
qed

theorem key_memo_transparent_witness:
  "fst (parseRSAPrivateKey test_platform ''-----BEGIN KEY'' with_role) = parseRSADirect test_platform ''-----BEGIN KEY''"
proof -
  obtain r s' where r: "parseRSAPrivateKey test_platform ''-----BEGIN KEY'' with_role = (r, s')" by fastforce
  then show ?thesis
    using key_memo_transparent [OF test_serial.serial_axioms scenario_reachable(3) r] by simp
qed

text \<open>
  C27. The JWT Bearer flow sends a signed assertion and nothing else: the form of every request
  has the two fields \<^verbatim>\<open>grant_type\<close> and \<^verbatim>\<open>assertion\<close>, and the assertion is a signature, with the
  configured key, of the claims for a time during the call.
\<close>

theorem jwt_flow_sends_assertion_only:
  assumes "observed P view trace clk" "key_cache_ok P s" "requestJWTBearerToken P cfg role s = (r, s')"
    and "GrantType role = grantJWTBearer"
  shows "\<exists>evs. trace (ext s') = trace (ext s) @ evs \<and> (\<forall>(cl, rq, rep) \<in> set (posts evs). \<exists>t key a.
      clk (ext s) \<le> t \<and> t \<le> clk (ext s') \<and> parseRSADirect P (PrivateKey cfg) = Inr key
      \<and> SignedString P key (jwtClaims cfg role t) = Inr a \<and> RequestURL rq = tokenURL cfg
      \<and> ParseQuery (Body rq) = Some [(''assertion'', a), (''grant_type'', jwtBearerGrantType)])"
proof (rule observed.requestJWTBearerToken_history [OF assms(1,3,4,2)])
  fix t evs
  assume h: "added trace clk evs s s'" "mint_history P cfg role t evs r" "clk (ext s) \<le> t" "t \<le> clk (ext s')"
  have "\<not> ''grant_type'' \<le> ''assertion''" by code_simp
  then have sorted: "sort_key fst (jwtBearerForm a) = [(''assertion'', a), (''grant_type'', jwtBearerGrantType)]" for a
    by (simp add: jwtBearerForm_def)
  have "\<forall>(cl, rq, rep) \<in> set (posts evs). \<exists>t key a.
      clk (ext s) \<le> t \<and> t \<le> clk (ext s') \<and> parseRSADirect P (PrivateKey cfg) = Inr key
      \<and> SignedString P key (jwtClaims cfg role t) = Inr a \<and> RequestURL rq = tokenURL cfg
      \<and> ParseQuery (Body rq) = Some [(''assertion'', a), (''grant_type'', jwtBearerGrantType)]"
    using mint_history_posts(3) [OF h(2)] h(3,4) assms(4)
    by (fastforce simp: mint_form_def ParseQuery_Values_Encode sorted)
  then show ?thesis using h(1) by (auto simp: added_def adds_def)
qed

text \<open>The scenario's configuration with a private key, and its role with the other flow.\<close>

definition jwt_config :: salesforceConfig where
  "jwt_config = org_config\<lparr>PrivateKey := ''-----BEGIN KEY''\<rparr>"

definition jwt_role :: salesforceRole where
  "jwt_role = app_role\<lparr>GrantType := grantJWTBearer\<rparr>"

lemma jwt_request_sends:
  "\<exists>r s' evs. requestJWTBearerToken test_platform jwt_config jwt_role with_role = (r, s')
    \<and> tw_history (ext s') = evs \<and> posts evs \<noteq> []"
proof -
  obtain ar s1 where b: "buildJWTAssertion test_platform jwt_config jwt_role (tw_clock (ext with_role)) with_role = (ar, s1)"
    by fastforce
  have "parseRSADirect test_platform (PrivateKey jwt_config) = Inr (PrivateKey jwt_config)" by code_simp
  moreover have "SignedString test_platform = test_sign" by (simp add: test_platform_def)
  ultimately obtain a where a: "buildJWTAssertion test_platform jwt_config jwt_role (tw_clock (ext with_role)) with_role = (Inr a, s1)"
    using buildJWTAssertion_direct(1) [OF plain_keys(2) b] b by (simp add: test_sign_def)
  then have "added tw_history tw_clock [] with_role s1"
    using buildJWTAssertion_frame [OF a] by (fastforce simp: added_def)
  moreover have "tw_history (ext with_role) = []" by (simp add: with_role_state start_def)
  ultimately have empty: "tw_history (ext s1) = []" by (simp add: added_def adds_def)
  obtain r s' where d: "doTokenRequest test_platform jwt_config (jwtBearerForm a) s1 = (r, s')" by fastforce
  have r: "requestJWTBearerToken test_platform jwt_config jwt_role with_role = (r, s')"
    using a d by (simp add: requestJWTBearerToken_def now_def)
  have ok: "isOk (httpClientFor test_platform jwt_config)" "isOk (url_Parse (tokenURL jwt_config))" by code_simp+
  from d have "\<exists>evs. added tw_history tw_clock evs s1 s' \<and> posts evs \<noteq> []"
  proof (cases rule: test_events.doTokenRequest_run)
    case unsent
    then show ?thesis using ok by (auto simp: isOk_iff newPost_request)
  next
    case (sent cl rq evs)
    then show ?thesis using retry_run_posts(1) by blast
  qed
  then show ?thesis using r empty by (auto simp: added_def adds_def)
qed

theorem jwt_flow_sends_assertion_only_witness:
  "\<exists>cl rq rep t key a. (cl, rq, rep) \<in> set (posts (tw_history (ext (snd
      (requestJWTBearerToken test_platform jwt_config jwt_role with_role)))))
    \<and> SignedString test_platform key (jwtClaims jwt_config jwt_role t) = Inr a \<and> RequestURL rq = tokenURL jwt_config
    \<and> ParseQuery (Body rq) = Some [(''assertion'', a), (''grant_type'', jwtBearerGrantType)]"
proof -
  obtain r s' evs where r: "requestJWTBearerToken test_platform jwt_config jwt_role with_role = (r, s')"
    "tw_history (ext s') = evs" "posts evs \<noteq> []"
    using jwt_request_sends by blast
  obtain cl rq rep where p: "(cl, rq, rep) \<in> set (posts evs)" using r(3) by (metis list.set_intros(1) neq_Nil_conv prod_cases3)
  have "GrantType jwt_role = grantJWTBearer" "tw_history (ext with_role) = []"
    by (simp_all add: jwt_role_def with_role_state start_def)
  then show ?thesis
    using jwt_flow_sends_assertion_only [OF test_events.observed_axioms plain_keys(2) r(1)] r(1,2) p
    by (intro exI [of _ cl] exI [of _ rq] exI [of _ rep]) fastforce
qed

text \<open>
  C32. The Client Credentials flow posts the credentials of the configuration: every request is a
  form POST to the token endpoint, with the headers of the code, whose fields are the grant type,
  the client id and the client secret, and no other; the scopes of the role are not sent. At least
  one request is sent when the client and the URL are valid.
\<close>

theorem client_credentials_flow_sends:
  assumes "observed P view trace clk" "requestClientCredentialsToken P cfg s = (r, s')"
  shows "\<exists>evs. trace (ext s') = trace (ext s) @ evs
    \<and> (isOk (httpClientFor P cfg) \<and> isOk (url_Parse (tokenURL cfg)) \<longrightarrow> posts evs \<noteq> [])
    \<and> (\<forall>(cl, rq, rep) \<in> set (posts evs). httpClientFor P cfg = Inr cl \<and> Method rq = ''POST'' \<and> RequestURL rq = tokenURL cfg
      \<and> Header rq = [(''Content-Type'', ''application/x-www-form-urlencoded''), (''Accept'', ''application/json'')]
      \<and> ParseQuery (Body rq) = Some [(''client_id'', ClientID cfg), (''client_secret'', ClientSecret cfg),
          (''grant_type'', ''client_credentials'')])"
proof (rule observed.doTokenRequest_run [OF assms(1) assms(2) [unfolded requestClientCredentialsToken_def]])
  fix e
  assume "s' = s" "\<not> (isOk (httpClientFor P cfg) \<and> isOk (newPost (tokenURL cfg) (clientCredentialsForm cfg) tokenHeaders))"
  then show ?thesis by (intro exI [of _ "[]"]) (auto simp: isOk_iff newPost_request)
next
  fix cl rq evs
  assume run: "httpClientFor P cfg = Inr cl" "newPost (tokenURL cfg) (clientCredentialsForm cfg) tokenHeaders = Inr rq"
    "added trace clk evs s s'" "retry_run cl rq 0 2 evs r"
  have "''client_id'' \<le> ''client_secret''" "\<not> ''grant_type'' \<le> ''client_secret''" "\<not> ''grant_type'' \<le> ''client_id''"
    by code_simp+
  then have "sort_key fst (clientCredentialsForm cfg)
      = [(''client_id'', ClientID cfg), (''client_secret'', ClientSecret cfg), (''grant_type'', ''client_credentials'')]"
    by (simp add: clientCredentialsForm_def grantClientCredential_def)
  then have "Method rq = ''POST''" "RequestURL rq = tokenURL cfg"
    "Header rq = [(''Content-Type'', ''application/x-www-form-urlencoded''), (''Accept'', ''application/json'')]"
    "ParseQuery (Body rq) = Some [(''client_id'', ClientID cfg), (''client_secret'', ClientSecret cfg),
      (''grant_type'', ''client_credentials'')]"
    using run(2) by (simp_all add: newPost_request ParseQuery_Values_Encode tokenHeaders_def)
  then show ?thesis
    using run(1,3) retry_run_posts(1,3) [OF run(4)]
    by (intro exI [of _ evs]) (auto simp: added_def adds_def)
qed

theorem client_credentials_flow_sends_witness:
  "\<exists>cl rq rep. (cl, rq, rep) \<in> set (posts (tw_history (ext (snd
      (requestClientCredentialsToken test_platform org_config with_role)))))
    \<and> ParseQuery (Body rq) = Some [(''client_id'', ''id''), (''client_secret'', ''pw''), (''grant_type'', ''client_credentials'')]"
proof -
  obtain r s' where r: "requestClientCredentialsToken test_platform org_config with_role = (r, s')" by fastforce
  have "tw_history (ext with_role) = []" "ClientID org_config = ''id''" "ClientSecret org_config = ''pw''"
    by (simp_all add: with_role_state start_def org_config_def)
  moreover have "isOk (httpClientFor test_platform org_config)" "isOk (url_Parse (tokenURL org_config))" by code_simp+
  ultimately have n: "posts (tw_history (ext s')) \<noteq> []"
    and all: "\<forall>(cl, rq, rep) \<in> set (posts (tw_history (ext s'))). ParseQuery (Body rq)
      = Some [(''client_id'', ''id''), (''client_secret'', ''pw''), (''grant_type'', ''client_credentials'')]"
    using client_credentials_flow_sends [OF test_events.observed_axioms r] by fastforce+
  obtain cl rq rep where p: "(cl, rq, rep) \<in> set (posts (tw_history (ext s')))"
    using n by (metis list.set_intros(1) neq_Nil_conv prod_cases3)
  show ?thesis using p bspec [OF all p] r by auto
qed

section \<open>Issuing a token\<close>

lemma fresh_earlier: "fresh ct t k \<Longrightarrow> t' \<le> t \<Longrightarrow> fresh ct t' k"
  by (simp add: fresh_def Time_Before_def)

context observed
begin

lemma issueUnderLock_clock:
  assumes "issueUnderLock P n cfg role s = (r, s')" "key_cache_ok P s"
  shows "clk (ext s) \<le> clk (ext s')"
  using assms by (cases rule: issueUnderLock_cases) (auto dest: added_clock)

lemma issueToken_fast:
  assumes "issueToken P n cfg role s = (r, s')" "key_cache_ok P s" "tokenAt P view s n = Some ct"
    and fr: "fresh ct (clk (ext s')) (RenewSkew role)"
  shows "same_store view s s' \<and> added trace clk [] s s' \<and> (isOk r \<longrightarrow> r = Inr (ct, True))"
  using assms(1)
proof (cases rule: issueToken_cases)
  case (locked s1 s2)
  obtain t where t: "\<not> fresh ct t (RenewSkew role)" "t \<le> clk (ext s1)" using locked(6) assms(3) by blast
  have "clk (ext s1) \<le> clk (ext s2)"
    using issueUnderLock_clock [OF locked(4)] key_cache_ok_same [OF assms(2) locked(2)] by simp
  moreover have "clk (ext s2) \<le> clk (ext s')"
    using added_clock [OF unlock_spec(1)] locked(5) by blast
  ultimately show ?thesis using t fresh_earlier [OF fr] by force
qed (use assms(3) in simp_all)

lemma issueByMint_degrades:
  assumes "mintAndCache P n cfg role s = (Inl e, s1)" "isTransientMintError e"
    and "issueByMint P n cfg role s = (r, s')" "tokenAt P view s1 n = Some ct" "clk (ext s') < ExpiresAt ct"
    and reads: "\<And>k w. isOk (fst (Storage_Get P k w))"
  shows "r = Inr (ct, True) \<and> same_store view s1 s'"
proof -
  have f: "mintFailed P n e s1 = (r, s')" using assms(1,3) by (simp add: issueByMint_def)
  from f show ?thesis
  proof (cases rule: mintFailed_spec)
    case (serve ct' t)
    then show ?thesis using assms(4) by simp
  next
    case fail
    obtain g s2 where g: "getCachedToken P n s1 = (g, s2)" by fastforce
    note gs = getCachedToken_spec [OF g]
    obtain u s3 where u: "ifUnexpired P g s2 = (u, s3)" by fastforce
    have "isOk (fst (st_Get P k s))" for k s
      using reads [of k "ext s"] by (auto simp: st_Get_def split: prod.splits)
    then have "isOk g"
      using g assms(4) gs
      by (force simp: getCachedToken_def tokenAt_def st_Get_def bind_eq_Some_conv isOk_iff
          dest: get_value split: prod.splits sum.splits option.splits)
    then have "g = Inr (Some ct)" using gs(4) assms(4) by (auto simp: isOk_iff)
    then have "u = None \<Longrightarrow> \<exists>t. ExpiresAt ct \<le> t \<and> t \<le> clk (ext s3)"
      using ifUnexpired_None [of g s2 s3] u by auto
    moreover have "s' = s3 \<or> u \<noteq> None"
      using f g u assms(2) by (auto simp: mintFailed_def split: if_splits)
    moreover have "u = None"
      using f g u assms(2) fail(1) by (auto simp: mintFailed_def split: if_splits)
    ultimately show ?thesis using assms(5) by auto
  qed (use assms(2) in simp)
qed

end

text \<open>
  C7. What a successful credential read returns: the response is built from the role and the
  token that is in the cache when the read ends, under the lease terms of the role. A token that
  is reported as cached was unexpired at some time during the read; any other was minted during
  the read, from the endpoint's answer, for the role.
\<close>

theorem creds_read_issues:
  assumes "observed P view trace clk" "plugin_ok P view s"
    and "pathCredsRead P data s = (Inr (Some (SecretResponse d sec)), s')" and n: "n = GetString data ''name''"
  shows "\<exists>role ct cached. roleAt P view s n = Some role \<and> configAt P view s (Config role) \<noteq> None
    \<and> d = credsData role ct cached \<and> sec = credsSecret n role \<and> tokenAt P view s' n = Some ct
    \<and> (if cached then \<exists>t. clk (ext s) \<le> t \<and> t \<le> clk (ext s') \<and> t < ExpiresAt ct
       else \<exists>t0 res. clk (ext s) \<le> t0 \<and> t0 \<le> clk (ext s') \<and> ct = mintedToken t0 role res \<and> AccessToken res \<noteq> [])"
proof (rule observed.pathCredsRead_cases [OF assms(1,3) n])
  fix role cfg s1 ir
  assume i: "roleAt P view s n = Some role" "configAt P view s (Config role) = Some cfg"
      "same_store view s s1" "added trace clk [] s s1" "rsaKeyCache s1 = rsaKeyCache s"
      "issueToken P n cfg role s1 = (ir, s')"
      "Inr (Some (SecretResponse d sec)) = (case ir of Inl e \<Rightarrow> Inl e | Inr (ct, cached) \<Rightarrow>
         Inr (Some (SecretResponse (credsData role ct cached) (credsSecret n role))))"
  obtain ct cached where ir: "ir = Inr (ct, cached)" and d: "d = credsData role ct cached" "sec = credsSecret n role"
    using i(7) by (auto split: sum.splits)
  have keys: "key_cache_ok P s1" using assms(2) key_cache_ok_same [OF _ i(5)] by (auto simp: plugin_ok_def)
  note served = observed.issueToken_served [OF assms(1) i(6) [unfolded ir] keys]
  have skew: "0 \<le> RenewSkew role" "in_int64 (RenewSkew role)"
    using assms(2) i(1) barrier.roleAt_text [OF observed.axioms(1) [OF assms(1)] i(1)]
    by (auto simp: plugin_ok_def roles_ok_def role_ok_iff role_text_def)
  have clk: "clk (ext s) \<le> clk (ext s1)" using added_clock [OF i(4)] .
  have "\<exists>t. clk (ext s) \<le> t \<and> t \<le> clk (ext s') \<and> t < ExpiresAt ct" if c: "cached"
  proof -
    obtain t where "clk (ext s1) \<le> t" "t \<le> clk (ext s')" "fresh ct t (RenewSkew role) \<or> t < ExpiresAt ct"
      using served(2) c by blast
    moreover then have "t < ExpiresAt ct" using fresh_unexpired [of ct t, OF _ skew] skew(1) by linarith
    ultimately show ?thesis using clk by (intro exI [of _ t]) simp
  qed
  moreover have "\<exists>t0 res. clk (ext s) \<le> t0 \<and> t0 \<le> clk (ext s') \<and> ct = mintedToken t0 role res \<and> AccessToken res \<noteq> []"
    if "\<not> cached" using served(3) that clk by (meson order_trans)
  ultimately show ?thesis
    using i(1,2) d served(1)
    by (intro exI [of _ role] exI [of _ ct] exI [of _ cached]) (simp only: option.distinct if_splits simp_thms, blast)
qed (simp_all add: unknown_def)

theorem creds_read_issues_witness:
  "\<exists>role ct cached. credsData app_role app_token True = credsData role ct cached
    \<and> tokenAt test_platform test_view cached_app ''app'' = Some ct"
proof -
  note r = fresh_read [OF app_token_fresh]
  show ?thesis
    using creds_read_issues [OF test_events.observed_axioms cached_app_ok r scenario_names(3) [symmetric]] by blast
qed

text \<open>
  C24. While the cached token is fresh, reading credentials costs nothing: no request is sent, no
  lock is taken, no record changes, and the response (unless the storage fails) is that token,
  reported as cached.
\<close>

theorem creds_read_fast_path:
  assumes "observed P view trace clk" "key_cache_ok P s" "pathCredsRead P data s = (r, s')"
    and n: "n = GetString data ''name''" and "roleAt P view s n = Some role" "configAt P view s (Config role) = Some cfg"
    and "tokenAt P view s n = Some ct" "fresh ct (clk (ext s')) (RenewSkew role)"
  shows "same_store view s s' \<and> trace (ext s') = trace (ext s)
    \<and> (isOk r \<longrightarrow> r = Inr (Some (SecretResponse (credsData role ct True) (credsSecret n role))))"
proof (rule observed.pathCredsRead_cases [OF assms(1,3) n])
  assume "same_store view s s'" "added trace clk [] s s'" "unknown P view s n r"
  then show ?thesis using assms(5,6) by (auto simp: unknown_def added_def adds_def)
next
  fix role' cfg' s1 ir
  assume i: "roleAt P view s n = Some role'" "same_store view s s1" "added trace clk [] s s1" "rsaKeyCache s1 = rsaKeyCache s"
      "issueToken P n cfg' role' s1 = (ir, s')"
      "r = (case ir of Inl e \<Rightarrow> Inl e | Inr (ct, cached) \<Rightarrow>
         Inr (Some (SecretResponse (credsData role' ct cached) (credsSecret n role'))))"
  have role: "role' = role" using i(1) assms(5) by simp
  have tok: "tokenAt P view s1 n = Some ct" using same_store_contents(3) [OF i(2)] assms(7) by simp
  have "same_store view s1 s' \<and> added trace clk [] s1 s' \<and> (isOk ir \<longrightarrow> ir = Inr (ct, True))"
    using observed.issueToken_fast [OF assms(1) i(5) key_cache_ok_same [OF assms(2) i(4)] tok] assms(8) role by simp
  then show ?thesis
    using i(2,3,6) role same_store_trans by (cases ir) (auto simp: added_def adds_def)
qed

theorem creds_read_fast_path_witness:
  "fst (pathCredsRead test_platform (name_data ''app'') cached_app)
    = Inr (Some (SecretResponse (credsData app_role app_token True) (credsSecret ''app'' app_role)))"
proof -
  note r = fresh_read [OF app_token_fresh]
  have "tw_clock (ext cached_app) = 1700000000 * time_Second" by (simp add: cached_app_def holding_def start_def)
  then show ?thesis
    using creds_read_fast_path [OF test_events.observed_axioms plain_keys(1) r refl, of app_role org_config app_token]
      app_token_fresh r
    by (simp add: scenario_names cached_app_contents app_role_def)
qed

text \<open>
  C9. A transient failure of a mint does not interrupt the service while the cached token is
  valid: if the cache still holds an unexpired token and can be read, the call returns that
  token, reported as cached, and changes no record.
\<close>

theorem transient_failure_serves_cached:
  assumes "observed P view trace clk" "mintAndCache P n cfg role s = (Inl e, s1)" "isTransientMintError e"
    and "issueByMint P n cfg role s = (r, s')" "tokenAt P view s1 n = Some ct" "clk (ext s') < ExpiresAt ct"
    and "\<forall>k w. isOk (fst (Storage_Get P k w))"
  shows "r = Inr (ct, True) \<and> same_store view s1 s'"
  using observed.issueByMint_degrades [OF assms(1-6)] assms(7) by blast

theorem transient_failure_serves_cached_witness:
  "fst (issueByMint test_platform ''app'' org_config (app_role\<lparr>GrantType := grantJWTBearer\<rparr>) cached_app)
    = Inr (app_token, True)"
proof -
  let ?role = "app_role\<lparr>GrantType := grantJWTBearer\<rparr>"
  have "PrivateKey org_config = []" by (simp add: org_config_def)
  then have m: "mintAndCache test_platform ''app'' org_config ?role cached_app = (Inl NoPrivateKeyConfigured, cached_app)"
    by (simp add: mintAndCache_def now_def mintToken_def requestJWTBearerToken_def buildJWTAssertion_def
        parseRSAPrivateKey_def)
  have clk: "tw_clock (ext cached_app) < ExpiresAt app_token"
    by (simp add: cached_app_def holding_def start_def app_token_def time_Second_def)
  obtain r s' where r: "issueByMint test_platform ''app'' org_config ?role cached_app = (r, s')"
    and s': "tw_clock (ext s') = tw_clock (ext cached_app)"
    using m clk app_token_text
    by (simp add: issueByMint_def mintFailed_def getCachedToken_def st_Get_def ifUnexpired_def now_def cached_app_def
        holding_def app_store_def prefix_defs Time_Before_def log_def)
  show ?thesis
    using transient_failure_serves_cached [OF test_events.observed_axioms m _ r, of app_token] clk s' r
    by (simp add: cached_app_contents)
qed

end
