(* ===== verification/Lease_Properties.thy ===== *)
theory Lease_Properties
  imports Token_Properties
begin

text \<open>
  The properties of a token's life: its expiry, the runs of the plugin against the mock endpoint,
  the rotation (\<^verbatim>\<open>path_rotate.go\<close>) and the lease operations (\<^verbatim>\<open>secret_access_token.go\<close>).
\<close>

section \<open>Expiry\<close>

text \<open>
  C29. How long a minted token is served from the cache. For a role that passed the checks, the
  token minted at \<open>t0\<close> is fresh exactly before \<open>t0\<close> plus its lifetime less \<open>renew_skew\<close>; the
  lifetime is the one the endpoint gives (its nanoseconds taken modulo 64 bits), else \<open>token_ttl\<close>
  of the role, else 15 minutes. If the endpoint gives none and the role sets one, the token is
  fresh when it is minted.
\<close>

theorem minted_token_fresh_until:
  assumes "role_ok role" "role_text role"
  shows "(fresh (mintedToken t0 role res) t (RenewSkew role) \<longleftrightarrow>
      t < t0 + (if 0 < ExpiresIn res then secs (ExpiresIn res)
                else if 0 < TokenTTL role then TokenTTL role else 15 * time_Minute) - RenewSkew role)
    \<and> (ExpiresIn res \<le> 0 \<and> 0 < TokenTTL role \<longrightarrow> fresh (mintedToken t0 role res) t0 (RenewSkew role))"
proof -
  have skew: "0 \<le> RenewSkew role" "0 < TokenTTL role \<Longrightarrow> RenewSkew role < TokenTTL role" "in_int64 (RenewSkew role)"
    using assms by (auto simp: role_ok_iff role_text_def)
  then have "wrap64 (- RenewSkew role) = - RenewSkew role" by (intro wrap64_id) (auto simp: in_int64_def)
  then show ?thesis
    using skew(2) by (auto simp: fresh_def mintedToken_def computeExpiry_def go_defs time_Minute_def)
qed

theorem minted_token_fresh_until_witness:
  "fresh (mintedToken 0 app_role (mock_result (New mock_url))) (839 * time_Second) (RenewSkew app_role)
    \<and> \<not> fresh (mintedToken 0 app_role (mock_result (New mock_url))) (840 * time_Second) (RenewSkew app_role)"
proof -
  have "role_ok app_role" "role_text app_role" by code_simp+
  moreover have "ExpiresIn (mock_result (New mock_url)) = 0" "TokenTTL app_role = 900 * time_Second"
    "RenewSkew app_role = 60 * time_Second" "0 < time_Second"
    by (simp_all add: mock_result_def app_role_def time_Second_def)
  ultimately show ?thesis
    using minted_token_fresh_until [of app_role 0 "mock_result (New mock_url)"] by (simp add: time_Second_def)
qed

text \<open>
  The lifetime the endpoint reports is not bounded: a number of seconds whose nanoseconds
  exceed 64 bits wraps around, and the token minted now is already expired.
\<close>

lemma expires_in_wraps:
  "computeExpiry t role \<lparr>AccessToken = a, InstanceURL = u, TokenType = ty, Scope = sc, ExpiresIn = 9223372037\<rparr> < t"
proof -
  have "secs 9223372037 < 0" by code_simp
  then show ?thesis by (simp add: computeExpiry_def Time_Add_def)
qed

section \<open>Against the mock endpoint\<close>

text \<open>
  C26. The retry loop never gives up early. Where the context of the request does not end and its
  client and URL are valid, the request is decided by the first reply that is conclusive, a result
  or an error that is not retryable, if one of the first three is; it fails with a retryable error
  only after three retryable replies. So an outage of at most two requests is survived.
\<close>

theorem token_request_recovers:
  assumes "observed P view trace clk" "doTokenRequest P cfg f s = (r, s')"
    and "\<forall>d w. fst (Wait_After P d w) = None" "\<forall>w. fst (Ctx_Err P w) = None"
    and "isOk (httpClientFor P cfg)" "isOk (url_Parse (tokenURL cfg))"
  shows "\<exists>evs. trace (ext s') = trace (ext s) @ evs \<and> posts evs \<noteq> [] \<and> length (posts evs) \<le> 3
    \<and> (\<forall>(cl, rq, rep) \<in> set (butlast (posts evs)). \<exists>e. reply_outcome rep = Inl (e, True))
    \<and> (case reply_outcome (snd (snd (last (posts evs)))) of
         Inr res \<Rightarrow> r = Inr res
       | Inl (e, retryable) \<Rightarrow> r = Inl e \<and> (retryable \<longrightarrow> length (posts evs) = 3))"
proof -
  obtain cl where cl: "httpClientFor P cfg = Inr cl" using assms(5) by (auto simp: isOk_iff)
  obtain rq where rq: "newPost (tokenURL cfg) f tokenHeaders = Inr rq" using assms(6) by (auto simp: newPost_request)
  have t: "tokenAttempts P cl cfg f 0 2 s = (r, s')"
    using assms(2) cl by (simp add: doTokenRequest_def tokenRetryMaxAttempts_def)
  obtain evs where "added trace clk evs s s'" "decides (Suc 2) (posts evs) r"
    using observed.tokenAttempts_persists [OF assms(1) t rq] assms(3,4) by auto
  then show ?thesis by (intro exI [of _ evs]) (simp add: decides_def added_def adds_def)
qed

text \<open>Against the mock endpoint: two transient failures, then the token.\<close>

lemma mock_recovers:
  assumes "ms_transientFails (tw_server (ext s)) = int j" "j \<le> 2" "recovering (tw_server (ext s))"
    and "tokenURL cfg = ms_TokenURL (tw_server (ext s))" "isOk (url_Parse (tokenURL cfg))" "CACert cfg = []"
  shows "\<exists>s'. requestClientCredentialsToken test_platform cfg s = (Inr (mock_result (tw_server (ext s))), s')
    \<and> length (Requests (tw_server (ext s'))) = length (Requests (tw_server (ext s))) + Suc j
    \<and> MintCount (tw_server (ext s')) = Suc (MintCount (tw_server (ext s)))"
proof -
  let ?f = "clientCredentialsForm cfg"
  obtain cl where cl: "httpClientFor test_platform cfg = Inr cl" using assms(6) by (simp add: httpClientFor_def)
  obtain rq where rq: "newPost (tokenURL cfg) ?f tokenHeaders = Inr rq"
    using assms(5) by (auto simp: newPost_request)
  have "\<forall>kv \<in> set ?f. fst kv \<noteq> ''scope''" by (simp add: clientCredentialsForm_def)
  from tokenAttempts_recovers [OF rq this assms(1,2,3,4), of cl 0]
  show ?thesis
    using cl by (simp add: requestClientCredentialsToken_def doTokenRequest_def tokenRetryMaxAttempts_def)
qed

text \<open>The scenario's mock, and the same with two failures to come.\<close>

definition outage :: test_engine where
  "outage = with_role\<lparr>ext := (ext with_role)\<lparr>tw_server := SetTransientFailures 2 503 (New mock_url)\<rparr>\<rparr>"

lemma mock_healthy: "healthy (New mock_url)"
proof -
  let ?m = "New mock_url"
  have "length (encodeTokenResponse (mint_name (ms_tokenBase ?m) (Suc (ms_mintCounter ?m))) (ms_instanceURL ?m) []) \<le> 200"
    "list_all is_ascii (mint_name (ms_tokenBase ?m) (Suc (ms_mintCounter ?m)))" "list_all is_ascii (ms_instanceURL ?m)"
    by code_simp+
  moreover have "(200 :: nat) \<le> max_body" by (simp add: max_body_def)
  ultimately show ?thesis unfolding healthy_def by (simp add: New_def)
qed

lemma outage_recovering: "recovering (SetTransientFailures 2 503 (New mock_url))"
  using mock_healthy
  by (simp add: recovering_def SetTransientFailures_def isRetryableStatus_def healthy_def New_def)

lemma org_endpoint: "tokenURL org_config = ms_TokenURL (New mock_url)" "isOk (url_Parse (tokenURL org_config))"
  "CACert org_config = []"
  by code_simp+

theorem token_request_recovers_witness:
  "\<exists>evs s'. doTokenRequest test_platform org_config (clientCredentialsForm org_config) outage
      = (Inr (mock_result (New mock_url)), s')
    \<and> length (Requests (tw_server (ext s'))) = 3
    \<and> tw_history (ext s') = tw_history (ext outage) @ evs \<and> posts evs \<noteq> []
    \<and> reply_outcome (snd (snd (last (posts evs)))) = Inr (mock_result (New mock_url))"
proof -
  let ?m = "SetTransientFailures 2 503 (New mock_url)"
  have server: "tw_server (ext outage) = ?m" by (simp add: outage_def)
  have "ms_TokenURL ?m = ms_TokenURL (New mock_url)" "mock_result ?m = mock_result (New mock_url)"
    "Requests ?m = []" "ms_transientFails ?m = int 2"
    by (simp_all add: SetTransientFailures_def ms_TokenURL_def mock_result_def Requests_def New_def)
  then obtain s' where r: "doTokenRequest test_platform org_config (clientCredentialsForm org_config) outage
      = (Inr (mock_result (New mock_url)), s')" "length (Requests (tw_server (ext s'))) = 3"
    using mock_recovers [of outage 2 org_config] outage_recovering org_endpoint server
    by (auto simp: requestClientCredentialsToken_def)
  have "\<forall>d w. fst (Wait_After test_platform d w) = None" "\<forall>w. fst (Ctx_Err test_platform w) = None"
    "isOk (httpClientFor test_platform org_config)"
    using org_endpoint(3) by (simp_all add: test_platform_def httpClientFor_def)
  note decided = token_request_recovers [OF test_events.observed_axioms r(1) this org_endpoint(2)]
  then show ?thesis using r by (fastforce split: sum.splits)
qed

text \<open>The records of the test platform, as the plugin reads them.\<close>

lemma test_reads:
  "roleAt test_platform test_view s n = Some role \<Longrightarrow> getRole test_platform n s = (Inr (Some role), s)"
  "configAt test_platform test_view s c = Some cfg \<Longrightarrow> getConfig test_platform c s = (Inr (Some cfg), s)"
  "tokenAt test_platform test_view s n = Some ct \<Longrightarrow> getCachedToken test_platform n s = (Inr (Some ct), s)"
  "map_of (tw_store (ext s)) (cacheStoragePrefix @ n) = None \<Longrightarrow> getCachedToken test_platform n s = (Inr None, s)"
  by (auto simp: roleAt_def configAt_def tokenAt_def test_view_def bind_eq_Some_conv getRole_def getConfig_def
      getCachedToken_def st_Get_def)

text \<open>A read on a cold cache takes the free lock and mints.\<close>

lemma cold_issue:
  assumes "map_of (tw_store (ext s)) (cacheStoragePrefix @ n) = None" "tw_held (ext s) = []"
  shows "issueToken test_platform n cfg role s =
    (case issueByMint test_platform n cfg role (lock test_platform (length n mod 256) s) of
       (r, s1) \<Rightarrow> (r, unlock test_platform (length n mod 256) s1))"
proof -
  let ?s = "lock test_platform (length n mod 256) s"
  have "map_of (tw_store (ext ?s)) (cacheStoragePrefix @ n) = None"
    using assms(1) by (simp add: lock_def test_lock_def)
  then show ?thesis
    using assms test_reads(4) [OF assms(1)] test_reads(4) [of ?s n]
    by (simp add: issueToken_def ifFresh_def acquireMintLock_def try_lock_def issueUnderLock_def lock_def)
qed

text \<open>
  C8. A refusal of the credentials fails closed. If the last request of a call of \<^verbatim>\<open>issueToken\<close> was
  answered with a status that is neither 200, 429 nor a server error, the call returns an error:
  a definitive one, with no cached token of the role left, or the error of the storage when the
  deletion of the token failed. Conversely a definitive error is returned only after such an answer,
  given under the role's lock, and with no cached token left.
\<close>

theorem issue_token_refused_purges:
  assumes "observed P view trace clk" "key_cache_ok P s" "issueToken P n cfg role s = (r, s')"
    and "trace (ext s') = trace (ext s) @ evs"
  shows "(posts evs \<noteq> [] \<and> refused (snd (snd (last (posts evs)))) \<longrightarrow>
      (\<exists>e. r = Inl e \<and> (\<not> isTransientMintError e \<and> tokenAt P view s' n = None
        \<or> (\<exists>s1 s2. deleteCachedToken P n s1 = (Inl e, s2) \<and> s' = unlock P (LockForKey P n) s2))))
    \<and> (\<forall>e. r = Inl e \<and> \<not> isTransientMintError e \<longrightarrow> tokenAt P view s' n = None
      \<and> (\<exists>mid. evs = Locked (LockForKey P n) # mid @ [Unlocked (LockForKey P n)]
          \<and> posts mid \<noteq> [] \<and> refused (snd (snd (last (posts mid))))))"
proof -
  have "\<exists>evs'. added trace clk evs' s s'"
    using observed.issueToken_contacts [OF assms(1,3,2) refl] by metis
  then have evs: "added trace clk evs s s'" using assms(4) by (auto simp: added_def adds_def)
  have "tokenAt P view s' n = None \<and> (\<exists>mid. evs = Locked (LockForKey P n) # mid @ [Unlocked (LockForKey P n)]
      \<and> posts mid \<noteq> [] \<and> refused (snd (snd (last (posts mid)))))" if r: "r = Inl e" "\<not> isTransientMintError e" for e
  proof -
    note spec = observed.issueToken_refused [OF assms(1) assms(3) [unfolded r(1)] assms(2) r(2)]
    obtain mid t where mid: "added trace clk (Locked (LockForKey P n) # mid @ [Unlocked (LockForKey P n)]) s s'"
      "mint_history P cfg role t mid (Inl e)"
      using spec(2) by blast
    then have "evs = Locked (LockForKey P n) # mid @ [Unlocked (LockForKey P n)]"
      using assms(4) by (simp add: added_def adds_def)
    then show ?thesis using spec(1) mint_history_posts(5) [OF mid(2) refl r(2)] by blast
  qed
  moreover have "\<exists>e. r = Inl e \<and> (\<not> isTransientMintError e \<and> tokenAt P view s' n = None
      \<or> (\<exists>s1 s2. deleteCachedToken P n s1 = (Inl e, s2) \<and> s' = unlock P (LockForKey P n) s2))"
    if "posts evs \<noteq> [] \<and> refused (snd (snd (last (posts evs))))"
    using observed.issueToken_refusal [OF assms(1,3,2) evs] that by blast
  ultimately show ?thesis by simp
qed

lemma writeOAuthError_outcome:
  "\<exists>e. readTokenResponse (writeOAuthError 400 c d) = Inl (OAuthError e, False) \<and> StatusCode e = 400"
proof -
  have "isRetryableStatus 400 = False" by (simp add: isRetryableStatus_def)
  then show ?thesis
    using parseTokenError_status [of 400 "take max_body (encodeObject [(''error'', c), (''error_description'', d)])"]
    by (auto simp: readTokenResponse_def writeOAuthError_def Let_def)
qed

text \<open>
  The scenario with an endpoint that refuses the grant, and a cached token that is valid for
  another 30 seconds, too short to be fresh.
\<close>

definition stale_token :: cachedToken where
  "stale_token = app_token\<lparr>ExpiresAt := 1700000030 * time_Second\<rparr>"

definition refusing :: test_engine where
  "refusing = (let s = holding (app_store @ [(''cache/app'', StoredToken stale_token)])
     in s\<lparr>ext := (ext s)\<lparr>tw_server := SetFailMode ''invalid_grant'' (New mock_url)\<rparr>\<rparr>)"

lemma stale_token_text: "token_text stale_token"
  by code_simp

lemma stale_token_stale: "\<not> fresh stale_token (1700000000 * time_Second) (RenewSkew app_role)"
  by code_simp

lemma refusing_contents:
  "tokenAt test_platform test_view refusing ''app'' = Some stale_token" "tw_held (ext refusing) = []"
  "tw_clock (ext refusing) = 1700000000 * time_Second" "tw_history (ext refusing) = []" "key_cache_ok test_platform refusing"
  "tw_server (ext refusing) = SetFailMode ''invalid_grant'' (New mock_url)"
  using stale_token_text
  by (simp_all add: refusing_def holding_def tokenAt_def test_view_def app_store_def prefix_defs start_def key_cache_ok_def)

lemma refusing_mint:
  assumes "tw_server (ext s) = SetFailMode ''invalid_grant'' (New mock_url)"
  shows "\<exists>e s' cl rq rep. mintAndCache test_platform ''app'' org_config app_role s = (Inl (OAuthError e), s')
    \<and> StatusCode e = 400 \<and> tw_store (ext s') = tw_store (ext s)
    \<and> tw_history (ext s') = tw_history (ext s) @ [Sent cl rq rep] \<and> refused rep"
proof -
  let ?f = "clientCredentialsForm org_config" and ?m = "SetFailMode ''invalid_grant'' (New mock_url)"
  let ?resp = "writeOAuthError 400 ''invalid_grant'' ''mock failure: invalid_grant''"
  obtain cl where cl: "httpClientFor test_platform org_config = Inr cl" using org_endpoint(3) by (simp add: httpClientFor_def)
  obtain rq where rq: "newPost (tokenURL org_config) ?f tokenHeaders = Inr rq"
    using org_endpoint(2) by (auto simp: newPost_request)
  obtain m' where h: "handleToken form_media form_error rq ?m = (?resp, 0, m')"
    by (simp add: handleToken_def ParseForm_plugin(1) [OF rq] recordRequest_def SetFailMode_def New_def Let_def)
  obtain e where e: "readTokenResponse ?resp = Inl (OAuthError e, False)" "StatusCode e = 400"
    using writeOAuthError_outcome by blast
  have refused: "refused (Inr ?resp)" by (simp add: refused_def writeOAuthError_def isRetryableStatus_def)
  have url: "tokenURL org_config = ms_TokenURL (tw_server (ext s))"
    using org_endpoint(1) assms by (simp add: ms_TokenURL_def SetFailMode_def)
  have "GrantType app_role = grantClientCredential" by code_simp
  then show ?thesis
    using mock_exchange [OF rq url, of _ 0 m' cl] h e cl assms refused
    by (simp add: mintAndCache_def now_def mintToken_def requestClientCredentialsToken_def doTokenRequest_def
        tokenAttempts.simps beforeAttempt_def exchanged_def)
qed

text \<open>A read of a stale token takes the free lock and mints.\<close>

lemma stale_issue:
  assumes "tokenAt test_platform test_view s n = Some ct" "\<not> fresh ct (tw_clock (ext s)) (RenewSkew role)"
    and "tw_held (ext s) = []"
  shows "issueToken test_platform n cfg role s =
    (case issueByMint test_platform n cfg role (lock test_platform (length n mod 256) s) of
       (r, s1) \<Rightarrow> (r, unlock test_platform (length n mod 256) s1))"
proof -
  let ?s = "lock test_platform (length n mod 256) s"
  have "tokenAt test_platform test_view ?s n = Some ct"
    using assms(1) by (simp add: lock_def test_lock_def tokenAt_def test_view_def)
  then show ?thesis
    using assms test_reads(3) [OF assms(1)] test_reads(3) [of ?s n]
    by (simp add: issueToken_def ifFresh_def acquireMintLock_def try_lock_def issueUnderLock_def lock_def now_def
        test_lock_def)
qed

theorem issue_token_refused_purges_witness:
  "tokenAt test_platform test_view refusing ''app'' = Some stale_token
    \<and> (\<exists>e. fst (issueToken test_platform ''app'' org_config app_role refusing) = Inl e \<and> \<not> isTransientMintError e)
    \<and> tokenAt test_platform test_view (snd (issueToken test_platform ''app'' org_config app_role refusing)) ''app'' = None"
proof -
  let ?s = "lock test_platform (length ''app'' mod 256) refusing"
  have s: "tw_server (ext ?s) = SetFailMode ''invalid_grant'' (New mock_url)" "tw_history (ext ?s) = [Locked 3]"
    "tw_store (ext ?s) = tw_store (ext refusing)"
    using refusing_contents by (simp_all add: lock_def test_lock_def)
  from refusing_mint [OF s(1)] obtain e s1 cl rq rep where m:
    "mintAndCache test_platform ''app'' org_config app_role ?s = (Inl (OAuthError e), s1)"
    "tw_store (ext s1) = tw_store (ext refusing)" "tw_history (ext s1) = [Locked 3, Sent cl rq rep]" "refused rep"
    using s(2,3) by auto
  obtain fr s2 where f: "mintFailed test_platform ''app'' (OAuthError e) s1 = (fr, s2)" by fastforce
  obtain s' where r: "issueToken test_platform ''app'' org_config app_role refusing = (fr, s')"
    and s': "s' = unlock test_platform 3 s2"
    using stale_issue [of refusing "''app''" stale_token app_role] refusing_contents stale_token_stale m(1) f
    by (simp add: issueByMint_def)
  have "added tw_history tw_clock [] s1 s2" using test_events.mintFailed_frame [OF f] by blast
  then have "tw_history (ext s') = tw_history (ext refusing) @ [Locked 3, Sent cl rq rep, Unlocked 3]"
    using m(3) s' refusing_contents(4) by (simp add: added_def adds_def unlock_def)
  note purge = issue_token_refused_purges [OF test_events.observed_axioms refusing_contents(5) r this]
  have "fst (deleteCachedToken test_platform n s) = Inr ()" for n s
    by (simp add: deleteCachedToken_def st_Delete_def)
  then have "deleteCachedToken test_platform n s \<noteq> (Inl e', s'')" for n s e' s'' by (metis fst_conv Inl_Inr_False)
  then show ?thesis using purge r m(4) refusing_contents(1) by auto
qed

lemma mock_result_text:
  assumes "healthy m"
  shows "result_text (mock_result m)"
proof -
  have "ValidString ''Bearer''" by code_simp
  then show ?thesis using assms by (simp add: healthy_def mock_result_def result_text_def ValidString_ascii)
qed

lemma mintedToken_text_mock: "healthy m \<Longrightarrow> token_text (mintedToken t role (mock_result m))"
  using test_storage.mintedToken_text mock_result_text by blast

lemma mock_mint:
  assumes "GrantType role = grantClientCredential" "CACert cfg = []"
    and "tokenURL cfg = ms_TokenURL (tw_server (ext s))" "isOk (url_Parse (tokenURL cfg))" "healthy (tw_server (ext s))"
    and tok: "tok = mintedToken (tw_clock (ext s)) role (mock_result (tw_server (ext s)))"
  shows "\<exists>s'. mintAndCache test_platform n cfg role s = (Inr tok, s')
    \<and> map_of (tw_store (ext s')) = (map_of (tw_store (ext s)))(cacheStoragePrefix @ n \<mapsto> StoredToken tok)
    \<and> tw_clock (ext s') = tw_clock (ext s) \<and> MintCount (tw_server (ext s')) = Suc (MintCount (tw_server (ext s)))
    \<and> posts (tw_history (ext s')) \<noteq> []"
proof -
  obtain ev m' where mint: "requestClientCredentialsToken test_platform cfg s
      = (Inr (mock_result (tw_server (ext s))), exchanged ev 0 m' s)"
    "MintCount m' = Suc (MintCount (tw_server (ext s)))" "posts [ev] \<noteq> []"
    using mock_client_credentials [of s cfg] assms(2-5) by auto
  then show ?thesis
    using assms(1) tok
    by (simp add: mintAndCache_def now_def mintToken_def putCachedToken_def st_Put_def exchanged_def Let_def update_conv')
qed

text \<open>
  C25. From end to end, on a cold cache and against a healthy endpoint: the first credential read
  mints one token and returns it under the role's lease terms; a second read at the same time
  returns the same token from the cache, and the endpoint is not asked again.
\<close>

theorem cold_read_then_cached:
  assumes "roleAt test_platform test_view s n = Some role" "GrantType role = grantClientCredential"
    and "configAt test_platform test_view s (Config role) = Some cfg" "CACert cfg = []"
    and "tokenURL cfg = ms_TokenURL (tw_server (ext s))" "isOk (url_Parse (tokenURL cfg))"
    and "healthy (tw_server (ext s))" "tw_held (ext s) = []"
    and "map_of (tw_store (ext s)) (cacheStoragePrefix @ n) = None" "GetString data ''name'' = n"
    and tok: "tok = mintedToken (tw_clock (ext s)) role (mock_result (tw_server (ext s)))"
    and fr: "fresh tok (tw_clock (ext s)) (RenewSkew role)"
  shows "\<exists>s'. pathCredsRead test_platform data s
      = (Inr (Some (SecretResponse (credsData role tok False) (credsSecret n role))), s')
    \<and> MintCount (tw_server (ext s')) = Suc (MintCount (tw_server (ext s)))
    \<and> pathCredsRead test_platform data s'
      = (Inr (Some (SecretResponse (credsData role tok True) (credsSecret n role))), s')"
proof -
  let ?ix = "length n mod 256"
  let ?s1 = "lock test_platform ?ix s"
  have locked: "tw_server (ext ?s1) = tw_server (ext s)" "tw_clock (ext ?s1) = tw_clock (ext s)"
    "tw_store (ext ?s1) = tw_store (ext s)"
    by (simp_all add: lock_def test_lock_def)
  obtain s2 where mint: "mintAndCache test_platform n cfg role ?s1 = (Inr tok, s2)"
    "map_of (tw_store (ext s2)) = (map_of (tw_store (ext s)))(cacheStoragePrefix @ n \<mapsto> StoredToken tok)"
    "tw_clock (ext s2) = tw_clock (ext s)" "MintCount (tw_server (ext s2)) = Suc (MintCount (tw_server (ext s)))"
    using mock_mint [OF assms(2,4), of ?s1 tok n] assms(5-7) tok locked by auto
  define s' where "s' = unlock test_platform ?ix s2"
  have issue: "issueToken test_platform n cfg role s = (Inr (tok, False), s')"
    using cold_issue [OF assms(9,8)] mint(1) by (simp add: issueByMint_def s'_def)
  have first: "pathCredsRead test_platform data s
      = (Inr (Some (SecretResponse (credsData role tok False) (credsSecret n role))), s')"
    using test_reads(1) [OF assms(1)] test_reads(2) [OF assms(3)] issue assms(10)
    by (simp add: pathCredsRead_def Let_def)
  have store: "map_of (tw_store (ext s')) = (map_of (tw_store (ext s)))(cacheStoragePrefix @ n \<mapsto> StoredToken tok)"
    and clk: "tw_clock (ext s') = tw_clock (ext s)" and count: "tw_server (ext s') = tw_server (ext s2)"
    using mint(2,3) by (simp_all add: s'_def unlock_def)
  have "token_text tok" unfolding tok using mintedToken_text_mock [OF assms(7)] .
  then have "roleAt test_platform test_view s' n = Some role" "configAt test_platform test_view s' (Config role) = Some cfg"
    "tokenAt test_platform test_view s' n = Some tok"
    using assms(1,3) by (simp_all add: roleAt_def configAt_def tokenAt_def test_view_def store prefix_defs)
  then have "pathCredsRead test_platform data s'
      = (Inr (Some (SecretResponse (credsData role tok True) (credsSecret n role))), s')"
    using test_reads(1,2,3) fr assms(10) clk
    by (simp add: pathCredsRead_def Let_def issueToken_def ifFresh_def now_def)
  then show ?thesis using first count mint(4) by auto
qed

theorem cold_read_then_cached_witness:
  "\<exists>tok. fst (pathCredsRead test_platform (name_data ''app'') with_role)
      = Inr (Some (SecretResponse (credsData app_role tok False) (credsSecret ''app'' app_role)))
    \<and> fst (pathCredsRead test_platform (name_data ''app'') issued)
      = Inr (Some (SecretResponse (credsData app_role tok True) (credsSecret ''app'' app_role)))"
proof -
  let ?tok = "mintedToken (1700000000 * time_Second) app_role (mock_result (New mock_url))"
  have server: "tw_server (ext with_role) = New mock_url" "tw_held (ext with_role) = []"
    "tw_clock (ext with_role) = 1700000000 * time_Second"
    "map_of (tw_store (ext with_role)) (cacheStoragePrefix @ ''app'') = None"
    by (simp_all add: with_role_state start_def app_store_def prefix_defs)
  have role: "GrantType app_role = grantClientCredential" "Config app_role = ''org''" by code_simp+
  have "fresh ?tok (1700000000 * time_Second) (RenewSkew app_role)" by code_simp
  then have "\<exists>s'. pathCredsRead test_platform (name_data ''app'') with_role
      = (Inr (Some (SecretResponse (credsData app_role ?tok False) (credsSecret ''app'' app_role))), s')
    \<and> pathCredsRead test_platform (name_data ''app'') s'
      = (Inr (Some (SecretResponse (credsData app_role ?tok True) (credsSecret ''app'' app_role))), s')"
    using cold_read_then_cached [of with_role "''app''" app_role org_config "name_data ''app''" ?tok]
      server org_endpoint mock_healthy role with_role_contents scenario_names(3) by auto
  then show ?thesis unfolding issued_def by (metis fst_conv snd_conv)
qed

section \<open>Rotation\<close>

lemma revocation_same:
  assumes "revocation P view n orole t evs" "same_store view s t"
  shows "revocation P view n orole s evs"
  using assms(1) same_store_contents [OF assms(2)] by cases (auto intro: revocation.intros)

text \<open>
  C20. A rotation that succeeds replaced the token: under the role's lock it revoked the old token
  at Salesforce, or was silent, then minted; the cache holds the token that the endpoint just
  gave, and the response reports its expiry.
\<close>

theorem rotate_replaces_token:
  assumes "serial P view trace clk" "key_cache_ok P s" "pathRotate P data s = (Inr (Some (DataResponse d)), s')"
    and n: "n = GetString data ''name''" and ix: "ix = LockForKey P n"
  shows "\<exists>role cfg t0 t res revs mints. roleAt P view s n = Some role \<and> configAt P view s (Config role) = Some cfg
    \<and> trace (ext s') = trace (ext s) @ Locked ix # revs @ mints @ [Unlocked ix]
    \<and> revocation P view n (Some role) s revs \<and> mint_history P cfg role t mints (Inr res)
    \<and> clk (ext s) \<le> t0 \<and> t0 \<le> clk (ext s') \<and> tokenAt P view s' n = Some (mintedToken t0 role res)
    \<and> d = [''rotated'' \<mapsto> RBool True, ''role'' \<mapsto> RString n,
        ''expires_at'' \<mapsto> RString (Format_RFC3339 (ExpiresAt (mintedToken t0 role res)))]"
proof (rule observed.pathRotate_cases [OF serial.axioms(1) [OF assms(1)] assms(3) n])
  fix role cfg s1 s2
  let ?s1 = "lock P ix s1"
  assume l: "roleAt P view s n = Some role" "configAt P view s (Config role) = Some cfg"
      "same_store view s s1" "added trace clk [] s s1" "rsaKeyCache s1 = rsaKeyCache s"
      "rotateUnderLock P n cfg role (lock P (LockForKey P n) s1) = (Inr (Some (DataResponse d)), s2)"
      "s' = unlock P (LockForKey P n) s2"
  note obs = serial.axioms(1) [OF assms(1)]
  note lock = observed.lock_spec [OF obs, where ix = ix and s = s1]
    and unlock = observed.unlock_spec [OF obs, where ix = ix and s = s2]
  have same: "same_store view s ?s1" using same_store_trans [OF l(3) serial.lock_same [OF assms(1)]] .
  have keys: "key_cache_ok P ?s1" using key_cache_ok_same [OF assms(2)] l(5) lock(2) by simp
  have s1: "added trace clk [Locked ix] s ?s1" using added_quiet_left [OF l(4) lock(1)] .
  have s': "s' = unlock P ix s2" using l(7) ix by simp
  show ?thesis
  proof (rule observed.rotateUnderLock_spec [OF obs l(6) [folded ix] keys])
    fix evs evs' t0 t m
    assume r: "added trace clk (evs @ evs') ?s1 s2" "revocation P view n (Some role) ?s1 evs"
      "mint_history P cfg role t evs' m" "clk (ext ?s1) \<le> t0" "t0 \<le> clk (ext s2)"
      "rotated P view n role t0 s2 m (Inr (Some (DataResponse d)))"
    from r(6) obtain res where res: "m = Inr res" "tokenAt P view s2 n = Some (mintedToken t0 role res)"
      "d = [''rotated'' \<mapsto> RBool True, ''role'' \<mapsto> RString n,
        ''expires_at'' \<mapsto> RString (Format_RFC3339 (ExpiresAt (mintedToken t0 role res)))]"
      by cases auto
    have hist: "added trace clk (Locked ix # evs @ evs' @ [Unlocked ix]) s s'"
      using added_trans [OF added_trans [OF s1 r(1)] unlock(1)] s' by simp
    have "tokenAt P view s' n = Some (mintedToken t0 role res)"
      using res(2) same_store_contents(3) [OF unlock(3)] s' by simp
    moreover have "clk (ext s) \<le> t0" "t0 \<le> clk (ext s')"
      using r(4,5) added_clock [OF s1] added_clock [OF unlock(1)] s' by simp_all
    ultimately show ?thesis
      using l(1,2) hist revocation_same [OF r(2) same] r(3) res(1,3)
      by (intro exI [of _ role] exI [of _ cfg] exI [of _ t0] exI [of _ t] exI [of _ res] exI [of _ evs] exI [of _ evs'])
        (simp add: added_def adds_def)
  qed simp
qed (simp_all add: unknown_def)

theorem rotate_replaces_token_witness:
  "\<exists>role t0 res. roleAt test_platform test_view with_role ''app'' = Some role
    \<and> tokenAt test_platform test_view (snd (pathRotate test_platform (name_data ''app'') with_role)) ''app''
      = Some (mintedToken t0 role res)"
proof -
  let ?s = "lock test_platform 3 with_role"
  have role: "GrantType app_role = grantClientCredential" "Config app_role = ''org''" "\<not> RevokeTokens app_role"
    by code_simp+
  have reads: "getRole test_platform ''app'' with_role = (Inr (Some app_role), with_role)"
    "getConfig test_platform ''org'' with_role = (Inr (Some org_config), with_role)"
    using test_reads(1,2) with_role_contents by simp_all
  obtain s1 where del: "deleteCachedToken test_platform ''app'' ?s = (Inr (), s1)"
    and s1: "tw_server (ext s1) = New mock_url"
    by (simp add: deleteCachedToken_def st_Delete_def lock_def test_lock_def with_role_state start_def)
  obtain ct s2 where mint: "mintAndCache test_platform ''app'' org_config app_role s1 = (Inr ct, s2)"
    using mock_mint [OF role(1) org_endpoint(3), of s1 _ "''app''"] s1 org_endpoint(1,2) mock_healthy by auto
  obtain d s' where rot: "pathRotate test_platform (name_data ''app'') with_role = (Inr (Some (DataResponse d)), s')"
    using reads role del mint
    by (simp add: pathRotate_def scenario_names rotateUnderLock_def revokeCachedTokenAtSalesforce_def Let_def)
  show ?thesis
    using rotate_replaces_token [OF test_serial.serial_axioms plain_keys(2) rot refl refl] rot
    by (auto simp: scenario_names)
qed

section \<open>Leases\<close>

text \<open>
  C21. Revoking a lease drops the cached token of its role and changes no other record. It sends
  nothing, or, when the role asks for it, one request: the cached token, alone in the form, to
  the revocation endpoint of the role's configuration.
\<close>

theorem lease_revoke_drops_token:
  assumes "observed P view trace clk" "secretAccessTokenRevoke P sec s = (r, s')"
    and "InternalData sec ''role'' = Some (RString n)" "n \<noteq> []"
  shows "configAt P view s' = configAt P view s \<and> roleAt P view s' = roleAt P view s
    \<and> (\<forall>m. m \<noteq> n \<longrightarrow> tokenAt P view s' m = tokenAt P view s m)
    \<and> (isOk r \<longrightarrow> r = Inr None \<and> tokenAt P view s' n = None)
    \<and> (\<exists>evs. trace (ext s') = trace (ext s) @ evs \<and> (evs = [] \<or>
        (\<exists>role ct cfg cl rq rep. roleAt P view s n = Some role \<and> RevokeTokens role \<and> tokenAt P view s n = Some ct
          \<and> configAt P view s (Config role) = Some cfg \<and> evs = [Sent cl rq rep] \<and> RequestURL rq = revokeURL cfg
          \<and> ParseQuery (Body rq) = Some [(''token'', ctAccessToken ct)])))"
proof -
  note spec = observed.secretAccessTokenRevoke_spec [OF assms]
  obtain evs where evs: "added trace clk evs s s'" "revocation P view n (roleAt P view s n) s evs"
    using spec(3) by blast
  have "evs = [] \<or> (\<exists>role ct cfg cl rq rep. roleAt P view s n = Some role \<and> RevokeTokens role
      \<and> tokenAt P view s n = Some ct \<and> configAt P view s (Config role) = Some cfg \<and> evs = [Sent cl rq rep]
      \<and> RequestURL rq = revokeURL cfg \<and> ParseQuery (Body rq) = Some [(''token'', ctAccessToken ct)])"
    using evs(2) by cases (auto simp: newPost_request ParseQuery_Values_Encode)
  then show ?thesis
    using spec(1,4) evs(1) by (auto simp: touches_token_def added_def adds_def)
qed

text \<open>The lease of the scenario's role.\<close>

definition app_lease :: secret where
  "app_lease = credsSecret ''app'' app_role"

lemma app_lease_role: "InternalData app_lease ''role'' = Some (RString ''app'')"
  by (simp add: app_lease_def credsSecret_def)

theorem lease_revoke_drops_token_witness:
  "tokenAt test_platform test_view (snd (secretAccessTokenRevoke test_platform app_lease cached_app)) ''app'' = None"
proof -
  have "\<not> RevokeTokens app_role" by code_simp
  then obtain s' where r: "secretAccessTokenRevoke test_platform app_lease cached_app = (Inr None, s')"
    using app_lease_role test_reads(1) [of cached_app "''app''"] cached_app_contents
    by (simp add: secretAccessTokenRevoke_def revokeCachedTokenAtSalesforce_def deleteCachedToken_def st_Delete_def)
  show ?thesis
    using lease_revoke_drops_token [OF test_events.observed_axioms r app_lease_role] r by simp
qed

text \<open>
  C22. Revocation at Salesforce is attempted. When the storage can be read, revoking a lease of a
  role with \<^verbatim>\<open>revoke_tokens\<close> and a cached token sends one request, whatever comes back: a form
  POST of that token to the revocation endpoint of the role's configuration, if its client and
  that URL are valid. The lease is then revoked unless the deletion of the cached token fails.
\<close>

theorem lease_revoke_reaches_endpoint:
  assumes "observed P view trace clk" "secretAccessTokenRevoke P sec s = (r, s')"
    and "\<forall>k w. isOk (fst (Storage_Get P k w))"
    and "InternalData sec ''role'' = Some (RString n)" "n \<noteq> []"
    and "roleAt P view s n = Some role" "RevokeTokens role" "configAt P view s (Config role) = Some cfg"
    and "tokenAt P view s n = Some ct" "ctAccessToken ct \<noteq> []"
    and "httpClientFor P cfg = Inr cl" "isOk (url_Parse (revokeURL cfg))"
  shows "(\<exists>rep. trace (ext s') = trace (ext s) @ [Sent cl \<lparr>Method = ''POST'', RequestURL = revokeURL cfg,
        Header = [(''Content-Type'', ''application/x-www-form-urlencoded'')],
        Body = Values_Encode [(''token'', ctAccessToken ct)]\<rparr> rep])
    \<and> (r = Inr None \<and> tokenAt P view s' n = None \<or> (\<exists>e s1. r = Inl e \<and> deleteCachedToken P n s1 = (Inl e, s')))"
proof -
  obtain rq where "newPost (revokeURL cfg) [(''token'', ctAccessToken ct)] revokeHeaders = Inr rq"
    "rq = \<lparr>Method = ''POST'', RequestURL = revokeURL cfg,
      Header = [(''Content-Type'', ''application/x-www-form-urlencoded'')], Body = Values_Encode [(''token'', ctAccessToken ct)]\<rparr>"
    using assms(12) by (simp add: newPost_request revokeHeaders_def)
  then show ?thesis
    using observed.secretAccessTokenRevoke_sends [OF assms(1-11)] by (simp add: added_def adds_def)
qed

text \<open>The scenario's role with \<^verbatim>\<open>revoke_tokens\<close> set.\<close>

definition revoking_app :: test_engine where
  "revoking_app = holding [(''config/org'', StoredConfig org_config),
     (''role/app'', StoredRole (app_role\<lparr>RevokeTokens := True\<rparr>)), (''cache/app'', StoredToken app_token)]"

lemma revoking_app_contents:
  "roleAt test_platform test_view revoking_app ''app'' = Some (app_role\<lparr>RevokeTokens := True\<rparr>)"
  "tokenAt test_platform test_view revoking_app ''app'' = Some app_token"
  "configAt test_platform test_view revoking_app (Config (app_role\<lparr>RevokeTokens := True\<rparr>)) = Some org_config"
proof -
  have "role_text (app_role\<lparr>RevokeTokens := True\<rparr>)" "Config (app_role\<lparr>RevokeTokens := True\<rparr>) = ''org''"
    by code_simp+
  then show "roleAt test_platform test_view revoking_app ''app'' = Some (app_role\<lparr>RevokeTokens := True\<rparr>)"
    "tokenAt test_platform test_view revoking_app ''app'' = Some app_token"
    "configAt test_platform test_view revoking_app (Config (app_role\<lparr>RevokeTokens := True\<rparr>)) = Some org_config"
    using scenario_text app_token_text
    by (simp_all add: revoking_app_def holding_def roleAt_def tokenAt_def configAt_def test_view_def prefix_defs)
qed

theorem lease_revoke_reaches_endpoint_witness:
  "\<exists>cl rq rep. tw_history (ext (snd (secretAccessTokenRevoke test_platform app_lease revoking_app))) = [Sent cl rq rep]
    \<and> RequestURL rq = revokeURL org_config \<and> Body rq = Values_Encode [(''token'', ''tok'')]"
proof -
  obtain r s' where r: "secretAccessTokenRevoke test_platform app_lease revoking_app = (r, s')" by fastforce
  obtain cl where cl: "httpClientFor test_platform org_config = Inr cl"
    using org_endpoint(3) by (simp add: httpClientFor_def)
  have e: "isOk (url_Parse (revokeURL org_config))" "ctAccessToken app_token = ''tok''" by code_simp+
  have h: "tw_history (ext revoking_app) = []" by (simp add: revoking_app_def holding_def start_def)
  show ?thesis
    using lease_revoke_reaches_endpoint [OF test_events.observed_axioms r _ app_lease_role _ revoking_app_contents(1) _
        revoking_app_contents(3,2) _ cl e(1)] r e(2) h by auto
qed

text \<open>
  C23. Renewing a lease sends nothing and changes no record: the lease gets the terms the role has
  now, or keeps its own when the role is gone. The cached token plays no part.
\<close>

theorem lease_renew_uses_role_terms:
  assumes "observed P view trace clk" "secretAccessTokenRenew P sec s = (r, s')"
    and "InternalData sec ''role'' = Some (RString n)" "isOk r"
  shows "same_store view s s' \<and> trace (ext s') = trace (ext s)
    \<and> r = Inr (Some (SecretResponse Map.empty (case roleAt P view s n of
        None \<Rightarrow> sec
      | Some role \<Rightarrow> sec\<lparr>secretTTL := TTL role, secretMaxTTL := MaxTTL role\<rparr>)))"
  using observed.secretAccessTokenRenew_spec [OF assms(1,2)] assms(3,4) by (simp add: added_def adds_def)

theorem lease_renew_uses_role_terms_witness:
  "fst (secretAccessTokenRenew test_platform app_lease cached_app)
    = Inr (Some (SecretResponse Map.empty (app_lease\<lparr>secretTTL := TTL app_role, secretMaxTTL := MaxTTL app_role\<rparr>)))"
proof -
  obtain r s' where r: "secretAccessTokenRenew test_platform app_lease cached_app = (r, s')" and "isOk r"
    using test_reads(1) [of cached_app "''app''"] cached_app_contents app_lease_role
    by (simp add: secretAccessTokenRenew_def)
  then show ?thesis
    using lease_renew_uses_role_terms [OF test_events.observed_axioms r app_lease_role] cached_app_contents by simp
qed

end
