(* ===== verification/Record_Spec.thy ===== *)
theory Record_Spec
  imports Backend
begin

text \<open>
  The abstract machine of the plugin: three maps of records (configurations, roles, cached
  tokens), and what one request, with everything that may fail in it, can do to them. Storage
  keys, codecs, the network and the lock are gone. A request is one step of the machine: it writes
  or deletes one configuration or role, or issues or drops the token of one role, and nothing else.
\<close>

record records =
  rConfigs :: "string \<rightharpoonup> salesforceConfig"
  rRoles :: "string \<rightharpoonup> salesforceRole"
  rTokens :: "string \<rightharpoonup> cachedToken"

text \<open>
  \<open>accept\<close> says which configurations may be stored. A write or deletion that fails half way may
  have changed the record and kept tokens, or the other way round; \<open>dropped D\<close> relates the tokens
  before and after when some of those of the roles in \<open>D\<close> are gone.
\<close>

definition dropped :: "string set \<Rightarrow> (string \<rightharpoonup> cachedToken) \<Rightarrow> (string \<rightharpoonup> cachedToken) \<Rightarrow> bool" where
  "dropped D t t' \<longleftrightarrow> (\<forall>m. t' m = t m \<or> t' m = None \<and> m \<in> D)"

definition boundTo :: "(string \<rightharpoonup> salesforceRole) \<Rightarrow> string \<Rightarrow> string set" where
  "boundTo R c = {m. \<exists>r. R m = Some r \<and> Config r = c}"

inductive spec_request :: "(salesforceConfig \<Rightarrow> bool) \<Rightarrow> records \<Rightarrow> records \<Rightarrow> bool" for accept a where
  read: "spec_request accept a a"
| write_config: "accept c \<Longrightarrow> C' = rConfigs a \<or> C' = (rConfigs a)(n \<mapsto> c) \<Longrightarrow>
    dropped (boundTo (rRoles a) n) (rTokens a) T' \<Longrightarrow>
    spec_request accept a \<lparr>rConfigs = C', rRoles = rRoles a, rTokens = T'\<rparr>"
| delete_config: "C' = rConfigs a \<or> C' = (rConfigs a)(n := None) \<Longrightarrow>
    dropped (boundTo (rRoles a) n) (rTokens a) T' \<Longrightarrow>
    spec_request accept a \<lparr>rConfigs = C', rRoles = rRoles a, rTokens = T'\<rparr>"
| write_role: "role_ok r \<Longrightarrow> rConfigs a (Config r) = Some c \<Longrightarrow> checkGrantMaterial r c = None \<Longrightarrow>
    (\<forall>old. rRoles a n = Some old \<longrightarrow> Username r = Username old \<and> Config r = Config old) \<Longrightarrow>
    R' = rRoles a \<or> R' = (rRoles a)(n \<mapsto> r) \<Longrightarrow> dropped {n} (rTokens a) T' \<Longrightarrow>
    spec_request accept a \<lparr>rConfigs = rConfigs a, rRoles = R', rTokens = T'\<rparr>"
| delete_role: "R' = rRoles a \<or> R' = (rRoles a)(n := None) \<Longrightarrow> dropped {n} (rTokens a) T' \<Longrightarrow>
    spec_request accept a \<lparr>rConfigs = rConfigs a, rRoles = R', rTokens = T'\<rparr>"
| issue: "rRoles a n = Some r \<Longrightarrow> rConfigs a (Config r) = Some c \<Longrightarrow> ctAccessToken ct \<noteq> [] \<Longrightarrow>
    spec_request accept a \<lparr>rConfigs = rConfigs a, rRoles = rRoles a, rTokens = (rTokens a)(n \<mapsto> ct)\<rparr>"
| drop_token: "dropped {n} (rTokens a) T' \<Longrightarrow>
    spec_request accept a \<lparr>rConfigs = rConfigs a, rRoles = rRoles a, rTokens = T'\<rparr>"

definition recordsOf ::
  "('w, 'b, 'k) platform \<Rightarrow> ('w, 'b) view \<Rightarrow> ('w, 'k) engine \<Rightarrow> records" where
  "recordsOf P view s = \<lparr>rConfigs = configAt P view s, rRoles = roleAt P view s, rTokens = tokenAt P view s\<rparr>"

section \<open>One record changes\<close>

lemma map_changed_at:
  assumes "\<And>m. m \<noteq> n \<Longrightarrow> f' m = f m" "f' n = f n \<or> f' n = v"
  shows "f' = f \<or> f' = f(n := v)"
proof -
  have "f' = f(n := f' n)" using assms(1) by (auto simp: fun_eq_iff)
  then show ?thesis using assms(2) by (metis fun_upd_triv)
qed

lemma records_same:
  "same_store view s s' \<Longrightarrow> spec_request ok (recordsOf P view s) (recordsOf P view s')"
  using same_store_contents [of view s s' P] by (simp add: recordsOf_def spec_request.read)

lemma recordsOf_sel [simp]:
  "rConfigs (recordsOf P view s) = configAt P view s" "rRoles (recordsOf P view s) = roleAt P view s"
  "rTokens (recordsOf P view s) = tokenAt P view s"
  by (simp_all add: recordsOf_def)

lemma boundTo_roles: "boundTo (roleAt P view s) n = bound_roles P view s n"
  by (simp add: boundTo_def bound_roles_def)

text \<open>Dropping or issuing the token of a role.\<close>

lemma records_dropped:
  assumes "drops_tokens view {n} s s'"
  shows "spec_request ok (recordsOf P view s) (recordsOf P view s')"
proof -
  note d = drops_tokens_contents [OF assms, of P]
  then have "recordsOf P view s' = \<lparr>rConfigs = configAt P view s, rRoles = roleAt P view s, rTokens = tokenAt P view s'\<rparr>"
    by (simp add: recordsOf_def)
  moreover have "dropped {n} (tokenAt P view s) (tokenAt P view s')" using d(3) by (auto simp: dropped_def)
  ultimately show ?thesis using spec_request.drop_token [of n "recordsOf P view s"] by simp
qed

lemma records_issued:
  assumes "touches_token P view n s s'" "roleAt P view s n = Some role" "configAt P view s (Config role) = Some cfg"
  shows "spec_request ok (recordsOf P view s) (recordsOf P view s')"
proof -
  have same: "configAt P view s' = configAt P view s" "roleAt P view s' = roleAt P view s"
    using assms(1) by (simp_all add: touches_token_def)
  have upd: "tokenAt P view s' = (tokenAt P view s)(n := tokenAt P view s' n)"
    using assms(1) by (auto simp: touches_token_def fun_eq_iff)
  consider "tokenAt P view s' n \<in> {tokenAt P view s n, None}"
    | ct where "tokenAt P view s' n = Some ct" "ctAccessToken ct \<noteq> []"
    using assms(1) by (auto simp: touches_token_def)
  then show ?thesis
  proof cases
    case 1
    then have "dropped {n} (tokenAt P view s) (tokenAt P view s')"
      unfolding dropped_def by (metis upd fun_upd_apply insert_iff empty_iff)
    then show ?thesis using spec_request.drop_token [of n "recordsOf P view s"] same by (simp add: recordsOf_def)
  next
    case (2 ct)
    then have "tokenAt P view s' = (tokenAt P view s)(n \<mapsto> ct)" using upd by simp
    then show ?thesis
      using spec_request.issue [of "recordsOf P view s" n role cfg ct] 2(2) same assms(2,3) by (simp add: recordsOf_def)
  qed
qed

section \<open>Every handler is one request\<close>

context serial
begin

lemma config_write_records:
  assumes "pathConfigWrite P data s = (r, s')" "data_text data"
  shows "spec_request (config_ok P) (recordsOf P view s) (recordsOf P view s')"
  using assms(1)
proof (cases rule: pathConfigWrite_cases)
  case (stored s1)
  let ?n = "GetString data ''name''" and ?c = "writtenConfig P view data s"
  have bound: "bound_roles P view s1 ?n = bound_roles P view s ?n"
    using same_store_contents(2) [OF stored(3), of P] by (simp add: bound_roles_def)
  note spec = storeConfig_spec [OF stored(5) writtenConfig_text [OF assms(2)], unfolded same_store_contents [OF stored(3)] bound]
  have ok: "config_ok P ?c" using checkConfig_None(1) stored(2) unfolding writtenConfig_def .
  have upd: "configAt P view s' = configAt P view s \<or> configAt P view s' = (configAt P view s)(?n \<mapsto> ?c)"
    using spec(1,3) by (intro map_changed_at)
  have "dropped (bound_roles P view s ?n) (tokenAt P view s) (tokenAt P view s')"
    unfolding dropped_def using spec(5) by blast
  then show ?thesis
    using spec_request.write_config [where accept = "config_ok P" and a = "recordsOf P view s", OF ok, where n = ?n] upd spec(4)
    by (simp add: recordsOf_def boundTo_roles)
qed (simp_all add: records_same)

lemma config_delete_records:
  assumes "pathConfigDelete P data s = (r, s')"
  shows "spec_request (config_ok P) (recordsOf P view s) (recordsOf P view s')"
proof -
  let ?n = "GetString data ''name''"
  note spec = pathConfigDelete_spec [OF assms refl]
  have "configAt P view s' = configAt P view s \<or> configAt P view s' = (configAt P view s)(?n := None)"
    using spec(1,2) by (intro map_changed_at) auto
  moreover have "dropped (bound_roles P view s ?n) (tokenAt P view s) (tokenAt P view s')"
    unfolding dropped_def using spec(4) by blast
  ultimately show ?thesis
    using spec_request.delete_config [of _ "recordsOf P view s" ?n] spec(3) by (simp add: recordsOf_def boundTo_roles)
qed

lemma role_write_records:
  assumes "pathRoleWrite P data s = (r, s')" "data_text data"
  shows "spec_request (config_ok P) (recordsOf P view s) (recordsOf P view s')"
  using assms(1)
proof (cases rule: pathRoleWrite_cases)
  case (stored s1 cfg)
  let ?n = "GetString data ''name''" and ?r = "writtenRole P view data s"
  note spec = storeRole_spec [OF stored(8) writtenRole_text [OF assms(2)], unfolded same_store_contents [OF stored(6)]]
  have ok: "role_ok ?r"
    using stored(4,5) by (auto simp: role_ok_def checkGrantMaterial_def split: if_splits)
  have ident: "\<forall>old. roleAt P view s ?n = Some old \<longrightarrow> Username ?r = Username old \<and> Config ?r = Config old"
    using stored(2) by (auto simp: checkImmutable_def split: if_splits)
  have upd: "roleAt P view s' = roleAt P view s \<or> roleAt P view s' = (roleAt P view s)(?n \<mapsto> ?r)"
    using spec(1,3) by (intro map_changed_at)
  have "dropped {?n} (tokenAt P view s) (tokenAt P view s')"
    unfolding dropped_def using spec(5) by blast
  then show ?thesis
    using spec_request.write_role [where accept = "config_ok P" and a = "recordsOf P view s", OF ok _ stored(5), where n = ?n]
      stored(3) ident upd spec(4) by (simp add: recordsOf_def)
qed (simp_all add: records_same)

lemma role_delete_records:
  assumes "pathRoleDelete P data s = (r, s')"
  shows "spec_request (config_ok P) (recordsOf P view s) (recordsOf P view s')"
proof -
  let ?n = "GetString data ''name''"
  note spec = pathRoleDelete_spec [OF assms refl]
  have "roleAt P view s' = roleAt P view s \<or> roleAt P view s' = (roleAt P view s)(?n := None)"
    using spec(1,2) by (intro map_changed_at) auto
  moreover have "dropped {?n} (tokenAt P view s) (tokenAt P view s')"
    unfolding dropped_def using spec(4) by blast
  ultimately show ?thesis
    using spec_request.delete_role [of _ "recordsOf P view s" ?n] spec(3) by (simp add: recordsOf_def)
qed

lemma creds_records:
  assumes "pathCredsRead P data s = (r, s')" "key_cache_ok P s"
  shows "spec_request (config_ok P) (recordsOf P view s) (recordsOf P view s')"
  using assms(1) refl
proof (cases rule: pathCredsRead_cases)
  case (issued role cfg s1 ir)
  have "touches_token P view (GetString data ''name'') s1 s'"
    using issueToken_touches [OF issued(6)] key_cache_ok_same [OF assms(2) issued(5)] by blast
  then show ?thesis
    using records_issued touches_token_trans [OF touches_token_same [OF issued(3)]] issued(1,2) by blast
qed (simp_all add: records_same)

lemma rotate_records:
  assumes "pathRotate P data s = (r, s')" "key_cache_ok P s"
  shows "spec_request (config_ok P) (recordsOf P view s) (recordsOf P view s')"
  using assms(1) refl
proof (cases rule: pathRotate_cases)
  case (locked role cfg s1 s2)
  let ?n = "GetString data ''name''" and ?s1 = "lock P (LockForKey P (GetString data ''name'')) s1"
  have start: "same_store view s ?s1" using same_store_trans [OF locked(3) lock_same] .
  have k: "key_cache_ok P ?s1" using key_cache_ok_same [OF assms(2)] locked(5) lock_spec(2) by simp
  from locked(6) k have "touches_token P view ?n ?s1 s2" by (cases rule: rotateUnderLock_spec) simp_all
  then have "touches_token P view ?n s s'"
    using touches_token_trans [OF touches_token_same [OF start]]
      touches_token_trans [OF _ touches_token_same [OF unlock_spec(3)]] locked(7) by blast
  then show ?thesis using locked(1,2) by (rule records_issued)
qed (simp_all add: records_same)

lemma revoke_records:
  assumes "secretAccessTokenRevoke P sec s = (r, s')"
  shows "spec_request (config_ok P) (recordsOf P view s) (recordsOf P view s')"
proof (cases "\<exists>n. InternalData sec ''role'' = Some (RString n) \<and> n \<noteq> []")
  case True
  then show ?thesis using records_dropped secretAccessTokenRevoke_spec(6) [OF assms] by blast
next
  case False
  then have "s' = s"
    using assms by (auto simp: secretAccessTokenRevoke_def split: option.splits rvalue.splits if_splits)
  then show ?thesis by (simp add: spec_request.read)
qed

lemma read_records:
  "pathConfigRead P data s = (r, s') \<Longrightarrow> spec_request ok (recordsOf P view s) (recordsOf P view s')"
  "pathRoleRead P data s = (r, s') \<Longrightarrow> spec_request ok (recordsOf P view s) (recordsOf P view s')"
  "pathConfigList P s = (r, s') \<Longrightarrow> spec_request ok (recordsOf P view s) (recordsOf P view s')"
  "pathRoleList P s = (r, s') \<Longrightarrow> spec_request ok (recordsOf P view s) (recordsOf P view s')"
proof -
  have list: "spec_request ok (recordsOf P view s) (recordsOf P view s')" if "st_List P p s = (r, s')" for p r s'
    using st_List_spec(1) [OF that] by (intro records_same) (simp add: same_store_def)
  show "pathConfigRead P data s = (r, s') \<Longrightarrow> spec_request ok (recordsOf P view s) (recordsOf P view s')"
    "pathRoleRead P data s = (r, s') \<Longrightarrow> spec_request ok (recordsOf P view s) (recordsOf P view s')"
    using pathConfigRead_spec(1) pathRoleRead_spec(1) records_same by metis+
  show "pathConfigList P s = (r, s') \<Longrightarrow> spec_request ok (recordsOf P view s) (recordsOf P view s')"
    "pathRoleList P s = (r, s') \<Longrightarrow> spec_request ok (recordsOf P view s) (recordsOf P view s')"
    by (auto simp: pathConfigList_def pathRoleList_def dest: list split: prod.splits sum.splits)
qed

lemma request_records:
  assumes "handleRequest P op path data s = Some (r, s')" "data_text data" "key_cache_ok P s"
  shows "spec_request (config_ok P) (recordsOf P view s) (recordsOf P view s')"
proof -
  obtain name h where h: "route P op path = Some (name, h)" "h (with_name name data) s = (r, s')"
    using assms(1) by (auto simp: handleRequest_def split: option.splits)
  from h(1) show ?thesis
  proof (cases rule: route_cases)
    case info
    then show ?thesis using h(2) by (simp add: pathInfoRead_def spec_request.read)
  next
    case named
    then have "data_text (with_name name data)"
      using data_text_with_name [OF assms(2)] generic_name ValidString_ascii by blast
    then show ?thesis
      using named(2) h(2) assms(3) config_write_records config_delete_records role_write_records role_delete_records
        read_records(1,2) creds_records rotate_records by metis
  next
    case listing
    then show ?thesis using h(2) read_records(3,4) by metis
  qed
qed

lemma step_records:
  assumes "step P view s s'" "key_cache_ok P s"
  shows "spec_request (config_ok P) (recordsOf P view s) (recordsOf P view s')"
  using assms(1)
proof cases
  case (request data op path r)
  then show ?thesis using request_records assms(2) by simp
next
  case (revoke sec r)
  then show ?thesis
    using revoke_records by (auto simp: handleRevoke_def newBackend_def secretAccessToken_def split: if_splits)
next
  case (renew sec r)
  then show ?thesis
    using secretAccessTokenRenew_spec(1) records_same
    by (fastforce simp: handleRenew_def newBackend_def secretAccessToken_def split: if_splits)
next
  case (idle w)
  then show ?thesis by (intro records_same) (simp add: same_store_def)
qed

end

end
