(* ===== verification/Mint_Lock.thy ===== *)
theory Mint_Lock
  imports Creds
begin

text \<open>
  Concurrent calls of \<^verbatim>\<open>issueToken\<close> for one role, interleaved at the granularity of their
  accesses to the cache, the clock, the lock and the endpoint. A request is at one of the
  program points of \<^verbatim>\<open>issueToken\<close> and \<^verbatim>\<open>mintAndCache\<close>, with what it has read so far; \<open>roles i\<close>
  is the role record that request \<open>i\<close> loaded before the call. The environment stands for what
  other code does: writes of configurations and roles and lease revocations drop the cached
  token without the lock, a rotation (or a role that shares the lock of the pool) holds the
  lock, and a rotation replaces the token while it does.
\<close>

datatype pc =
    Idle
  | Start
  | Checking cachedToken
  | TryLocking
  | Contended
  | Spare cachedToken
  | Waiting
  | Recheck
  | Rechecking cachedToken
  | MintStart
  | Minting Time
  | Storing Time tokenResult
  | Failed gerror
  | Fallback gerror cachedToken
  | Purging gerror
  | Release "gerror + cachedToken \<times> bool"
  | Done "gerror + cachedToken \<times> bool"

datatype holder = Request nat | Outsider

record mint_state =
  mcache :: "cachedToken option"
  mlock :: "holder option"
  mtime :: Time
  mmints :: nat
  mpc :: "nat \<Rightarrow> pc"

text \<open>A step of request \<open>i\<close>, its exchange with the endpoint, a fault it meets, time, other code.\<close>

datatype label = Local nat | Exchange nat | Fault nat | Tick | Env

definition at :: "nat \<Rightarrow> pc \<Rightarrow> mint_state \<Rightarrow> mint_state" where
  "at i p s = s\<lparr>mpc := (mpc s)(i := p)\<rparr>"

text \<open>Where a failed mint goes when there is no cached token to serve.\<close>

definition conclude :: "gerror \<Rightarrow> pc" where
  "conclude e = (if isTransientMintError e then Release (Inl e) else Purging e)"

inductive mint_step :: "(nat \<Rightarrow> salesforceRole) \<Rightarrow> mint_state \<Rightarrow> label \<Rightarrow> mint_state \<Rightarrow> bool"
  for roles where
  arrive: "mpc s i = Idle \<Longrightarrow> mint_step roles s (Local i) (at i Start s)"
| fast_read: "mpc s i = Start \<Longrightarrow> mcache s = Some ct \<Longrightarrow> mint_step roles s (Local i) (at i (Checking ct) s)"
| fast_none: "mpc s i = Start \<Longrightarrow> mcache s = None \<Longrightarrow> mint_step roles s (Local i) (at i TryLocking s)"
| fast_error: "mpc s i = Start \<Longrightarrow> mint_step roles s (Fault i) (at i (Done (Inl e)) s)"
| fast_hit: "mpc s i = Checking ct \<Longrightarrow> fresh ct (mtime s) (RenewSkew (roles i)) \<Longrightarrow>
    mint_step roles s (Local i) (at i (Done (Inr (ct, True))) s)"
| fast_stale: "mpc s i = Checking ct \<Longrightarrow> \<not> fresh ct (mtime s) (RenewSkew (roles i)) \<Longrightarrow>
    mint_step roles s (Local i) (at i TryLocking s)"
| try_ok: "mpc s i = TryLocking \<Longrightarrow> mlock s = None \<Longrightarrow>
    mint_step roles s (Local i) (at i Recheck (s\<lparr>mlock := Some (Request i)\<rparr>))"
| try_fail: "mpc s i = TryLocking \<Longrightarrow> mlock s \<noteq> None \<Longrightarrow> mint_step roles s (Local i) (at i Contended s)"
| spare_read: "mpc s i = Contended \<Longrightarrow> mcache s = Some ct \<Longrightarrow> mint_step roles s (Local i) (at i (Spare ct) s)"
| spare_none: "mpc s i = Contended \<Longrightarrow> mcache s = None \<Longrightarrow> mint_step roles s (Local i) (at i Waiting s)"
| spare_error: "mpc s i = Contended \<Longrightarrow> mint_step roles s (Fault i) (at i Waiting s)"
| serve_old: "mpc s i = Spare ct \<Longrightarrow> Time_Before (mtime s) (ExpiresAt ct) \<Longrightarrow>
    mint_step roles s (Local i) (at i (Done (Inr (ct, True))) s)"
| wait_lock: "mpc s i = Spare ct \<Longrightarrow> \<not> Time_Before (mtime s) (ExpiresAt ct) \<Longrightarrow>
    mint_step roles s (Local i) (at i Waiting s)"
| acquire: "mpc s i = Waiting \<Longrightarrow> mlock s = None \<Longrightarrow>
    mint_step roles s (Local i) (at i Recheck (s\<lparr>mlock := Some (Request i)\<rparr>))"
| recheck_read: "mpc s i = Recheck \<Longrightarrow> mcache s = Some ct \<Longrightarrow> mint_step roles s (Local i) (at i (Rechecking ct) s)"
| recheck_none: "mpc s i = Recheck \<Longrightarrow> mcache s = None \<Longrightarrow> mint_step roles s (Local i) (at i MintStart s)"
| recheck_error: "mpc s i = Recheck \<Longrightarrow> mint_step roles s (Fault i) (at i (Release (Inl e)) s)"
| recheck_hit: "mpc s i = Rechecking ct \<Longrightarrow> fresh ct (mtime s) (RenewSkew (roles i)) \<Longrightarrow>
    mint_step roles s (Local i) (at i (Release (Inr (ct, True))) s)"
| recheck_stale: "mpc s i = Rechecking ct \<Longrightarrow> \<not> fresh ct (mtime s) (RenewSkew (roles i)) \<Longrightarrow>
    mint_step roles s (Local i) (at i MintStart s)"
| mint_start: "mpc s i = MintStart \<Longrightarrow> mint_step roles s (Local i) (at i (Minting (mtime s)) s)"
| minted: "mpc s i = Minting t0 \<Longrightarrow>
    mint_step roles s (Exchange i) (at i (Storing t0 res) (s\<lparr>mmints := Suc (mmints s)\<rparr>))"
| mint_failed: "mpc s i = Minting t0 \<Longrightarrow> mint_step roles s (Fault i) (at i (Failed e) s)"
| store: "mpc s i = Storing t0 res \<Longrightarrow> ct = mintedToken t0 (roles i) res \<Longrightarrow>
    mint_step roles s (Local i) (at i (Release (Inr (ct, False))) (s\<lparr>mcache := Some ct\<rparr>))"
| store_failed: "mpc s i = Storing t0 res \<Longrightarrow> c \<in> {mcache s, Some (mintedToken t0 (roles i) res)} \<Longrightarrow>
    mint_step roles s (Fault i) (at i (Failed e) (s\<lparr>mcache := c\<rparr>))"
| failed_read: "mpc s i = Failed e \<Longrightarrow> mcache s = Some ct \<Longrightarrow> mint_step roles s (Local i) (at i (Fallback e ct) s)"
| failed_none: "mpc s i = Failed e \<Longrightarrow> mcache s = None \<Longrightarrow> mint_step roles s (Local i) (at i (conclude e) s)"
| failed_error: "mpc s i = Failed e \<Longrightarrow> mint_step roles s (Fault i) (at i (conclude e) s)"
| degrade: "mpc s i = Fallback e ct \<Longrightarrow> Time_Before (mtime s) (ExpiresAt ct) \<Longrightarrow> isTransientMintError e \<Longrightarrow>
    mint_step roles s (Local i) (at i (Release (Inr (ct, True))) s)"
| give_up: "mpc s i = Fallback e ct \<Longrightarrow> \<not> (Time_Before (mtime s) (ExpiresAt ct) \<and> isTransientMintError e) \<Longrightarrow>
    mint_step roles s (Local i) (at i (conclude e) s)"
| purge: "mpc s i = Purging e \<Longrightarrow> mint_step roles s (Local i) (at i (Release (Inl e)) (s\<lparr>mcache := None\<rparr>))"
| purge_failed: "mpc s i = Purging e \<Longrightarrow> c \<in> {mcache s, None} \<Longrightarrow>
    mint_step roles s (Fault i) (at i (Release (Inl d)) (s\<lparr>mcache := c\<rparr>))"
| release: "mpc s i = Release r \<Longrightarrow> mint_step roles s (Local i) (at i (Done r) (s\<lparr>mlock := None\<rparr>))"
| tick: "0 \<le> d \<Longrightarrow> mint_step roles s Tick (s\<lparr>mtime := mtime s + d\<rparr>)"
| env_drop: "mint_step roles s Env (s\<lparr>mcache := None\<rparr>)"
| env_lock: "mlock s = None \<Longrightarrow> mint_step roles s Env (s\<lparr>mlock := Some Outsider\<rparr>)"
| env_store: "mlock s = Some Outsider \<Longrightarrow> mint_step roles s Env (s\<lparr>mcache := Some ct\<rparr>)"
| env_unlock: "mlock s = Some Outsider \<Longrightarrow> mint_step roles s Env (s\<lparr>mlock := None\<rparr>)"

text \<open>A run, with its labels.\<close>

inductive mint_run :: "(nat \<Rightarrow> salesforceRole) \<Rightarrow> mint_state \<Rightarrow> label list \<Rightarrow> mint_state \<Rightarrow> bool"
  for roles where
  stop: "mint_run roles s [] s"
| go: "mint_step roles s l s1 \<Longrightarrow> mint_run roles s1 ls s2 \<Longrightarrow> mint_run roles s (l # ls) s2"

text \<open>Nobody has arrived, the lock is free.\<close>

definition quiescent :: "mint_state \<Rightarrow> bool" where
  "quiescent s \<longleftrightarrow> (\<forall>i. mpc s i = Idle) \<and> mlock s = None \<and> mmints s = 0"

definition mint_reachable :: "(nat \<Rightarrow> salesforceRole) \<Rightarrow> mint_state \<Rightarrow> bool" where
  "mint_reachable roles s \<longleftrightarrow> (\<exists>s0 ls. quiescent s0 \<and> mint_run roles s0 ls s)"

text \<open>The program points at which a request holds the lock.\<close>

definition critical :: "pc \<Rightarrow> bool" where
  "critical p = (case p of
      Recheck \<Rightarrow> True | Rechecking _ \<Rightarrow> True | MintStart \<Rightarrow> True | Minting _ \<Rightarrow> True | Storing _ _ \<Rightarrow> True
    | Failed _ \<Rightarrow> True | Fallback _ _ \<Rightarrow> True | Purging _ \<Rightarrow> True | Release _ \<Rightarrow> True
    | _ \<Rightarrow> False)"

text \<open>The request a label belongs to, and how far a request is from its end.\<close>

fun actor :: "label \<Rightarrow> nat option" where
  "actor (Local i) = Some i"
| "actor (Exchange i) = Some i"
| "actor (Fault i) = Some i"
| "actor Tick = None"
| "actor Env = None"

fun rank :: "pc \<Rightarrow> nat" where
  "rank Idle = 16"
| "rank Start = 15"
| "rank (Checking _) = 14"
| "rank TryLocking = 13"
| "rank Contended = 12"
| "rank (Spare _) = 11"
| "rank Waiting = 10"
| "rank Recheck = 9"
| "rank (Rechecking _) = 8"
| "rank MintStart = 7"
| "rank (Minting _) = 6"
| "rank (Storing _ _) = 5"
| "rank (Failed _) = 4"
| "rank (Fallback _ _) = 3"
| "rank (Purging _) = 2"
| "rank (Release _) = 1"
| "rank (Done _) = 0"

text \<open>
  The steps of a calm burst: no faults, no interference, and every token minted stays
  fresh, for each of the requests, while the burst lasts.
\<close>

definition tokens_stay_fresh :: "(nat \<Rightarrow> salesforceRole) \<Rightarrow> mint_state \<Rightarrow> bool" where
  "tokens_stay_fresh roles s \<longleftrightarrow>
     (\<forall>ct j. mcache s = Some ct \<longrightarrow> fresh ct (mtime s) (RenewSkew (roles j)))
     \<and> (\<forall>i t0 res j. mpc s i = Storing t0 res \<longrightarrow>
          fresh (mintedToken t0 (roles i) res) (mtime s) (RenewSkew (roles j)))"

definition calm :: "label \<Rightarrow> bool" where
  "calm l \<longleftrightarrow> (\<exists>i. l = Local i \<or> l = Exchange i) \<or> l = Tick"

inductive burst :: "(nat \<Rightarrow> salesforceRole) \<Rightarrow> mint_state \<Rightarrow> bool" for roles where
  cold: "quiescent s \<Longrightarrow> mcache s = None \<Longrightarrow> burst roles s"
| more: "burst roles s \<Longrightarrow> mint_step roles s l s' \<Longrightarrow> calm l \<Longrightarrow>
    tokens_stay_fresh roles s' \<Longrightarrow> burst roles s'"

text \<open>
  Before the mint nothing is cached; from the mint on, its token is being stored or cached,
  and every request that has returned, is about to or has read a token was given that token.
\<close>

definition served :: "pc \<Rightarrow> cachedToken \<Rightarrow> bool" where
  "served p ct = (case p of
      Done r \<Rightarrow> (\<exists>c. r = Inr (ct, c)) | Release r \<Rightarrow> (\<exists>c. r = Inr (ct, c))
    | Checking c \<Rightarrow> c = ct | Spare c \<Rightarrow> c = ct | Rechecking c \<Rightarrow> c = ct
    | _ \<Rightarrow> p \<in> {Idle, Start, TryLocking, Contended, Waiting, Recheck})"

definition unserved :: "pc \<Rightarrow> bool" where
  "unserved p = (case p of
      Minting _ \<Rightarrow> True | _ \<Rightarrow> p \<in> {Idle, Start, TryLocking, Contended, Waiting, Recheck, MintStart})"

definition burst_inv :: "mint_state \<Rightarrow> bool" where
  "burst_inv s \<longleftrightarrow>
     (mmints s = 0 \<and> mcache s = None \<and> (\<forall>i. unserved (mpc s i)))
     \<or> (mmints s = 1 \<and> mcache s = None \<and> (\<exists>i t0 res. mpc s i = Storing t0 res \<and> (\<forall>j. j \<noteq> i \<longrightarrow> unserved (mpc s j))))
     \<or> (\<exists>ct. mmints s = 1 \<and> mcache s = Some ct \<and> (\<forall>i. served (mpc s i) ct))"

text \<open>A cold start, the first request at its mint, and the first request done.\<close>

definition cold_start :: mint_state where
  "cold_start = \<lparr>mcache = None, mlock = None, mtime = 0, mmints = 0, mpc = (\<lambda>_. Idle)\<rparr>"

definition first_minting :: mint_state where
  "first_minting = at 0 (Minting 0) (cold_start\<lparr>mlock := Some (Request 0)\<rparr>)"

definition first_done :: "salesforceRole \<Rightarrow> tokenResult \<Rightarrow> mint_state" where
  "first_done role res = \<lparr>mcache = Some (mintedToken 0 role res), mlock = None, mtime = 0, mmints = 1,
     mpc = (\<lambda>_. Idle)(0 := Done (Inr (mintedToken 0 role res, False)))\<rparr>"

section \<open>Runs\<close>

lemma at_simps [simp]:
  "mpc (at i p s) = (mpc s)(i := p)" "mcache (at i p s) = mcache s" "mlock (at i p s) = mlock s"
  "mtime (at i p s) = mtime s" "mmints (at i p s) = mmints s"
  by (simp_all add: at_def)

lemma at_at [simp]: "at i p (at i q s) = at i p s" "at i p (s\<lparr>mlock := l\<rparr>) = (at i p s)\<lparr>mlock := l\<rparr>"
  by (simp_all add: at_def)

lemma mint_run_trans: "mint_run roles s ls s1 \<Longrightarrow> mint_run roles s1 ks s2 \<Longrightarrow> mint_run roles s (ls @ ks) s2"
  by (induction rule: mint_run.induct) (auto intro: mint_run.go)

lemma mint_run_step: "mint_step roles s l s' \<Longrightarrow> mint_run roles s [l] s'"
  by (blast intro: mint_run.intros)

lemma mint_run_invariant:
  assumes "mint_run roles s ls s'" "I s" "\<And>s l s'. mint_step roles s l s' \<Longrightarrow> I s \<Longrightarrow> I s'"
  shows "I s'"
  using assms(1,2) by (induction rule: mint_run.induct) (auto intro: assms(3))

section \<open>Mutual exclusion\<close>

definition lock_inv :: "mint_state \<Rightarrow> bool" where
  "lock_inv s \<longleftrightarrow> (\<forall>i. critical (mpc s i) \<longleftrightarrow> mlock s = Some (Request i))"

lemma critical_simps [simp]:
  "critical Recheck" "critical (Rechecking ct)" "critical MintStart" "critical (Minting t)" "critical (Storing t res)"
  "critical (Failed e)" "critical (Fallback e ct)" "critical (Purging e)" "critical (Release r)" "critical (conclude e)"
  "\<not> critical Idle" "\<not> critical Start" "\<not> critical (Checking ct)" "\<not> critical TryLocking" "\<not> critical Contended"
  "\<not> critical (Spare ct)" "\<not> critical Waiting" "\<not> critical (Done r)"
  by (simp_all add: critical_def conclude_def)

lemma lock_invI:
  assumes "lock_inv s"
  shows "mpc s' = (mpc s)(i := p) \<Longrightarrow> mlock s' = mlock s \<Longrightarrow> critical p = critical (mpc s i) \<Longrightarrow> lock_inv s'"
    and "mpc s' = (mpc s)(i := p) \<Longrightarrow> mlock s = None \<Longrightarrow> mlock s' = Some (Request i) \<Longrightarrow> critical p \<Longrightarrow> lock_inv s'"
    and "mpc s' = (mpc s)(i := p) \<Longrightarrow> mlock s' = None \<Longrightarrow> critical (mpc s i) \<Longrightarrow> \<not> critical p \<Longrightarrow> lock_inv s'"
    and "mpc s' = mpc s \<Longrightarrow> mlock s' = mlock s \<or> mlock s' \<in> {None, Some Outsider} \<and> mlock s \<in> {None, Some Outsider} \<Longrightarrow>
      lock_inv s'"
proof -
  have inv: "critical (mpc s j) = (mlock s = Some (Request j))" for j
    using assms by (simp add: lock_inv_def)
  show "mpc s' = (mpc s)(i := p) \<Longrightarrow> mlock s' = mlock s \<Longrightarrow> critical p = critical (mpc s i) \<Longrightarrow> lock_inv s'"
    "mpc s' = (mpc s)(i := p) \<Longrightarrow> mlock s = None \<Longrightarrow> mlock s' = Some (Request i) \<Longrightarrow> critical p \<Longrightarrow> lock_inv s'"
    "mpc s' = (mpc s)(i := p) \<Longrightarrow> mlock s' = None \<Longrightarrow> critical (mpc s i) \<Longrightarrow> \<not> critical p \<Longrightarrow> lock_inv s'"
    by (auto simp: lock_inv_def inv)
  show "mpc s' = mpc s \<Longrightarrow> mlock s' = mlock s \<or> mlock s' \<in> {None, Some Outsider} \<and> mlock s \<in> {None, Some Outsider} \<Longrightarrow>
      lock_inv s'"
    by (auto simp: lock_inv_def inv)
qed

lemma lock_inv_step: "mint_step roles s l s' \<Longrightarrow> lock_inv s \<Longrightarrow> lock_inv s'"
proof (induction rule: mint_step.induct)
  case (try_ok s i)
  show ?case by (rule lock_invI(2) [of s _ i Recheck]) (use try_ok in simp_all)
next
  case (acquire s i)
  show ?case by (rule lock_invI(2) [of s _ i Recheck]) (use acquire in simp_all)
next
  case (release s i r)
  show ?case by (rule lock_invI(3) [of s _ i "Done r"]) (use release in simp_all)
qed (rule lock_invI(1), assumption, simp, simp, simp | rule lock_invI(4), assumption, simp, simp)+

lemma quiescent_lock_inv: "quiescent s \<Longrightarrow> lock_inv s"
  by (simp add: quiescent_def lock_inv_def)

lemma reachable_lock_inv: "mint_reachable roles s \<Longrightarrow> lock_inv s"
  unfolding mint_reachable_def using mint_run_invariant [where I = lock_inv] quiescent_lock_inv lock_inv_step by blast

section \<open>Progress\<close>

text \<open>
  A request that has arrived and not returned can move, or the lock it waits for is held by
  one that can, or by an outsider (which releases it).
\<close>

definition moves :: "(nat \<Rightarrow> salesforceRole) \<Rightarrow> mint_state \<Rightarrow> nat \<Rightarrow> bool" where
  "moves roles s i \<longleftrightarrow> (\<exists>l s'. l \<in> {Local i, Exchange i} \<and> mint_step roles s l s')"

lemma movesI: "mint_step roles s (Local i) s' \<Longrightarrow> moves roles s i" "mint_step roles s (Exchange i) s' \<Longrightarrow> moves roles s i"
  unfolding moves_def by blast+

lemma critical_moves:
  assumes "critical (mpc s i)"
  shows "moves roles s i"
proof (cases "mpc s i")
  case Recheck
  then show ?thesis
    by (cases "mcache s") (auto intro: movesI mint_step.recheck_read mint_step.recheck_none)
next
  case (Rechecking ct)
  then show ?thesis by (meson movesI(1) mint_step.recheck_hit mint_step.recheck_stale)
next
  case (Failed e)
  then show ?thesis
    by (cases "mcache s") (auto intro: movesI mint_step.failed_read mint_step.failed_none)
next
  case (Fallback e ct)
  then show ?thesis by (meson movesI(1) mint_step.degrade mint_step.give_up)
qed (use assms in \<open>auto intro: movesI mint_step.mint_start mint_step.minted mint_step.store mint_step.purge mint_step.release\<close>)

lemma no_deadlock:
  assumes "lock_inv s" "mpc s i \<noteq> Idle" "\<And>r. mpc s i \<noteq> Done r"
  shows "moves roles s i \<or> (\<exists>j. mlock s = Some (Request j) \<and> moves roles s j) \<or> mlock s = Some Outsider"
proof (cases "mpc s i")
  case Start
  then have "moves roles s i"
    by (cases "mcache s") (auto intro: movesI mint_step.fast_read mint_step.fast_none)
  then show ?thesis ..
next
  case (Checking ct)
  then have "moves roles s i" by (meson movesI(1) mint_step.fast_hit mint_step.fast_stale)
  then show ?thesis ..
next
  case TryLocking
  then have "moves roles s i"
    by (cases "mlock s = None") (auto intro: movesI mint_step.try_ok mint_step.try_fail)
  then show ?thesis ..
next
  case Contended
  then have "moves roles s i"
    by (cases "mcache s") (auto intro: movesI mint_step.spare_read mint_step.spare_none)
  then show ?thesis ..
next
  case (Spare ct)
  then have "moves roles s i" by (meson movesI(1) mint_step.serve_old mint_step.wait_lock)
  then show ?thesis ..
next
  case Waiting
  show ?thesis
  proof (cases "mlock s")
    case None
    with Waiting have "moves roles s i" by (auto intro: movesI mint_step.acquire)
    then show ?thesis ..
  next
    case (Some h)
    then show ?thesis using assms(1) critical_moves by (cases h) (auto simp: lock_inv_def)
  qed
qed (use assms(2,3) critical_moves in auto)

section \<open>Every request ends\<close>

lemma rank_conclude: "rank (conclude e) < 3"
  by (simp add: conclude_def)

lemma rank_step:
  assumes "mint_step roles s l s'"
  shows "rank (mpc s' i) + (if actor l = Some i then 1 else 0) \<le> rank (mpc s i)"
  using assms by cases (use rank_conclude in \<open>auto simp: Suc_le_eq less_Suc_eq_le intro: less_imp_le order.strict_trans\<close>)

lemma rank_run:
  assumes "mint_run roles s ls s'"
  shows "rank (mpc s' i) + length (filter (\<lambda>l. actor l = Some i) ls) \<le> rank (mpc s i)"
  using assms
proof (induction rule: mint_run.induct)
  case (go s l s1 ls s2)
  then show ?case using rank_step [OF go.hyps(1), of i] by (cases "actor l = Some i") simp_all
qed simp

lemma rank_bound: "rank p \<le> 16"
  by (cases p) simp_all

section \<open>A burst on a cold cache mints once\<close>

lemma served_simps [simp]:
  "served Idle ct" "served Start ct" "served TryLocking ct" "served Contended ct" "served Waiting ct" "served Recheck ct"
  "served (Checking c) ct \<longleftrightarrow> c = ct" "served (Spare c) ct \<longleftrightarrow> c = ct" "served (Rechecking c) ct \<longleftrightarrow> c = ct"
  "\<not> served MintStart ct" "\<not> served (Minting t) ct" "\<not> served (Storing t res) ct" "\<not> served (Failed e) ct"
  "\<not> served (Fallback e c) ct" "\<not> served (Purging e) ct"
  "served (Release r) ct \<longleftrightarrow> (\<exists>c. r = Inr (ct, c))" "served (Done r) ct \<longleftrightarrow> (\<exists>c. r = Inr (ct, c))"
  by (simp_all add: served_def)

lemma unserved_simps [simp]:
  "unserved Idle" "unserved Start" "unserved TryLocking" "unserved Contended" "unserved Waiting"
  "unserved Recheck" "unserved MintStart" "unserved (Minting t)"
  "\<not> unserved (Checking ct)" "\<not> unserved (Spare ct)" "\<not> unserved (Rechecking ct)" "\<not> unserved (Storing t res)"
  "\<not> unserved (Failed e)" "\<not> unserved (Fallback e ct)" "\<not> unserved (Purging e)"
  "\<not> unserved (Release r)" "\<not> unserved (Done r)"
  by (simp_all add: unserved_def)

lemma unserved_served: "unserved p \<Longrightarrow> \<not> critical p \<Longrightarrow> served p ct"
  by (cases p) simp_all

lemma calm_simps [simp]: "calm (Local i)" "calm (Exchange i)" "calm Tick" "\<not> calm (Fault i)" "\<not> calm Env"
  by (auto simp: calm_def)

lemma burst_before:
  assumes "mint_step roles s l s'" "calm l" "mmints s = 0" "mcache s = None" and un: "\<forall>i. unserved (mpc s i)"
  shows "burst_inv s'"
proof -
  have no: "\<And>p. mpc s i = p \<Longrightarrow> unserved p" for i using un by auto
  from assms(1) show ?thesis
  proof cases
    case (minted i t0 res)
    then show ?thesis using un assms(3,4) unfolding burst_inv_def by (intro disjI2 disjI1) auto
  qed (use no un assms(2-4) in \<open>fastforce simp: burst_inv_def\<close>)+
qed

lemma burst_during:
  assumes "mint_step roles s l s'" "calm l" "lock_inv s" "mmints s = 1" "mcache s = None"
    and i: "mpc s i = Storing t0 res" and un: "\<forall>j. j \<noteq> i \<longrightarrow> unserved (mpc s j)"
  shows "burst_inv s'"
proof -
  have lock: "mlock s = Some (Request i)" using assms(3) i critical_simps(5) by (metis lock_inv_def)
  have others: "unserved p \<and> \<not> critical p" if "mpc s j = p" "j \<noteq> i" for j p
    using assms(3) lock that un by (auto simp: lock_inv_def)
  have at_i: "mpc s j = p \<Longrightarrow> critical p \<Longrightarrow> j = i \<and> p = Storing t0 res" for j p
    using others [of j p] i by (cases "j = i") auto
  have stay: "burst_inv s'"
    if "mmints s' = 1" "mcache s' = None" "mpc s' i = Storing t0 res" "\<forall>j. j \<noteq> i \<longrightarrow> unserved (mpc s' j)"
    using that unfolding burst_inv_def by blast
  from assms(1) show ?thesis
  proof cases
    case (store j t r ct)
    then have "j = i" using at_i by simp
    moreover have "served (mpc s k) ct" if "k \<noteq> i" for k using others [OF refl that] unserved_served by blast
    ultimately show ?thesis using store assms(4) unfolding burst_inv_def by (intro disjI2) auto
  qed (rule stay; use lock un i assms(2,4,5) in \<open>auto dest: at_i\<close>)+
qed

lemma burst_after:
  assumes "mint_step roles s l s'" "calm l" "tokens_stay_fresh roles s" "mmints s = 1" "mcache s = Some ct"
    and ser: "\<forall>i. served (mpc s i) ct"
  shows "burst_inv s'"
proof -
  have here: "mpc s i = p \<Longrightarrow> served p ct" for i p using ser by blast
  have fr: "fresh ct (mtime s) (RenewSkew (roles j))" for j
    using assms(3,5) by (simp add: tokens_stay_fresh_def)
  have "mmints s' = 1 \<and> mcache s' = Some ct \<and> (\<forall>i. served (mpc s' i) ct)"
    using assms(1) by cases (use here fr ser assms(2,4,5) in \<open>fastforce simp: conclude_def\<close>)+
  then show ?thesis unfolding burst_inv_def by blast
qed

lemma burst_ok: "burst roles s \<Longrightarrow> lock_inv s \<and> tokens_stay_fresh roles s \<and> burst_inv s"
proof (induction rule: burst.induct)
  case (cold s)
  then show ?case
    by (simp add: quiescent_def lock_inv_def tokens_stay_fresh_def burst_inv_def)
next
  case (more s l s')
  then have "lock_inv s'" using lock_inv_step by blast
  moreover have "burst_inv s'"
    using more.IH burst_before [OF more.hyps(2,3)] burst_during [OF more.hyps(2,3)] burst_after [OF more.hyps(2,3)]
    unfolding burst_inv_def [of s] by blast
  ultimately show ?case using more.hyps(4) by blast
qed

section \<open>A first request\<close>

lemma cold_start_quiescent: "quiescent cold_start"
  by (simp add: quiescent_def cold_start_def)

lemma cold_start_simps [simp]:
  "mcache cold_start = None" "mlock cold_start = None" "mtime cold_start = 0" "mmints cold_start = 0"
  "mpc cold_start = (\<lambda>_. Idle)"
  by (simp_all add: cold_start_def)

lemma first_steps:
  defines "locked \<equiv> cold_start\<lparr>mlock := Some (Request 0)\<rparr>"
  shows "mint_step roles cold_start (Local 0) (at 0 Start cold_start)"
    "mint_step roles (at 0 Start cold_start) (Local 0) (at 0 TryLocking cold_start)"
    "mint_step roles (at 0 TryLocking cold_start) (Local 0) (at 0 Recheck locked)"
    "mint_step roles (at 0 Recheck locked) (Local 0) (at 0 MintStart locked)"
    "mint_step roles (at 0 MintStart locked) (Local 0) first_minting"
  using mint_step.arrive [of cold_start 0 roles] mint_step.fast_none [of "at 0 Start cold_start" 0 roles]
    mint_step.try_ok [of "at 0 TryLocking cold_start" 0 roles] mint_step.recheck_none [of "at 0 Recheck locked" 0 roles]
    mint_step.mint_start [of "at 0 MintStart locked" 0 roles]
  by (simp_all add: first_minting_def locked_def at_def)

lemma first_minting_run: "mint_run roles cold_start [Local 0, Local 0, Local 0, Local 0, Local 0] first_minting"
  using first_steps by (blast intro: mint_run.intros)

lemma first_minting_reachable: "mint_reachable roles first_minting"
  unfolding mint_reachable_def using first_minting_run cold_start_quiescent by blast

text \<open>The rest of the first request: the endpoint answers, the token is stored, the lock is released.\<close>

lemma last_steps:
  defines "sent \<equiv> \<lambda>res. at 0 (Storing 0 res) (first_minting\<lparr>mmints := 1\<rparr>)"
    and "stored \<equiv> \<lambda>role res. at 0 (Release (Inr (mintedToken 0 role res, False)))
      (first_minting\<lparr>mmints := 1, mcache := Some (mintedToken 0 role res)\<rparr>)"
  shows "mint_step roles first_minting (Exchange 0) (sent res)"
    "mint_step roles (sent res) (Local 0) (stored (roles 0) res)"
    "mint_step roles (stored (roles 0) res) (Local 0) (first_done (roles 0) res)"
  using mint_step.minted [of first_minting 0 0 roles res] mint_step.store [of "sent res" 0 0 res _ roles, OF _ refl]
    mint_step.release [of "stored (roles 0) res" 0 "Inr (mintedToken 0 (roles 0) res, False)" roles]
  by (simp_all add: first_minting_def cold_start_def sent_def stored_def at_def first_done_def)

lemma first_done_burst:
  assumes "\<forall>j. fresh (mintedToken 0 (roles 0) res) 0 (RenewSkew (roles j))"
  shows "burst roles (first_done (roles 0) res)"
proof -
  note keep = burst.more [of roles]
  have "burst roles first_minting"
    by (rule keep [OF keep [OF keep [OF keep [OF keep [OF burst.cold [OF cold_start_quiescent] first_steps(1)]
            first_steps(2)] first_steps(3)] first_steps(4)] first_steps(5)])
      (simp_all add: tokens_stay_fresh_def first_minting_def at_def)
  then show ?thesis
    by (rule keep [OF keep [OF keep [OF _ last_steps(1)] last_steps(2)] last_steps(3)])
      (use assms in \<open>simp_all add: cold_start_def tokens_stay_fresh_def first_minting_def first_done_def at_def\<close>)
qed

section \<open>What the lock guarantees\<close>

text \<open>
  C5. No stampede: when any number of requests arrive on a cold cache, and while the burst lasts
  no fault occurs, no other code interferes, and every token that is minted stays fresh for each of
  the requests (its lifetime exceeds every \<open>renew_skew\<close> by the length of the burst), at most one
  token is minted, and all requests that have returned were given that same token.
\<close>

theorem burst_mints_once:
  assumes "burst roles s"
  shows "mmints s \<le> 1 \<and> (\<exists>ct. \<forall>i r. mpc s i = Done r \<longrightarrow> (\<exists>cached. r = Inr (ct, cached)))"
proof -
  have no: "mpc s i \<noteq> Done r" if "unserved (mpc s i)" for i r using that by auto
  have inv: "burst_inv s" using burst_ok [OF assms] by simp
  show ?thesis
    using inv unfolding burst_inv_def
  proof (elim disjE exE conjE)
    fix i t0 res
    assume "mmints s = 1" "mpc s i = Storing t0 res" "\<forall>j. j \<noteq> i \<longrightarrow> unserved (mpc s j)"
    then have "mpc s j \<noteq> Done r" for j r using no by (cases "j = i") auto
    then show ?thesis using \<open>mmints s = 1\<close> by simp
  next
    fix ct
    assume "mmints s = 1" and ser: "\<forall>i. served (mpc s i) ct"
    have "\<exists>cached. r = Inr (ct, cached)" if "mpc s i = Done r" for i r
      using ser [rule_format, of i] that by simp
    then show ?thesis using \<open>mmints s = 1\<close> by auto
  qed (use no in simp)
qed

theorem burst_mints_once_witness:
  "mmints (first_done zeroRole zeroTokenResult) \<le> 1"
proof -
  have "fresh (mintedToken 0 zeroRole zeroTokenResult) 0 (RenewSkew zeroRole)" by code_simp
  then have "burst (\<lambda>_. zeroRole) (first_done zeroRole zeroTokenResult)"
    using first_done_burst [of "\<lambda>_. zeroRole" zeroTokenResult] by simp
  from burst_mints_once [OF this] show ?thesis by simp
qed

text \<open>
  C12. Mints of a role are mutually exclusive: in every interleaving, with faults, dropped tokens
  and rotations in between, at most one request is past the lock.
\<close>

theorem mint_mutual_exclusion:
  assumes "mint_reachable roles s" "critical (mpc s i)" "critical (mpc s j)"
  shows "i = j"
  using reachable_lock_inv [OF assms(1)] assms(2,3) by (simp add: lock_inv_def)

theorem mint_mutual_exclusion_witness:
  "critical (mpc first_minting 0) \<and> \<not> critical (mpc first_minting 1)"
proof -
  have c: "critical (mpc first_minting 0)" by (simp add: first_minting_def at_def)
  have "\<not> critical (mpc first_minting 1)"
  proof
    assume "critical (mpc first_minting 1)"
    from mint_mutual_exclusion [OF first_minting_reachable [of "\<lambda>_. zeroRole"] c this] show False by simp
  qed
  with c show ?thesis by simp
qed

text \<open>
  C13. No deadlock: a request that has arrived and not returned can take a step, or the request
  that holds the lock can, or the lock is held by an outsider (a rotation, or another role that
  shares it in the pool).
\<close>

theorem mint_progress:
  assumes "mint_reachable roles s" "mpc s i \<noteq> Idle" "\<forall>r. mpc s i \<noteq> Done r"
  shows "moves roles s i \<or> (\<exists>j. mlock s = Some (Request j) \<and> moves roles s j) \<or> mlock s = Some Outsider"
  using no_deadlock [OF reachable_lock_inv [OF assms(1)] assms(2)] assms(3) by blast

theorem mint_progress_witness:
  "moves (\<lambda>_. zeroRole) first_minting 0 \<or> (\<exists>j. mlock first_minting = Some (Request j) \<and> moves (\<lambda>_. zeroRole) first_minting j)
    \<or> mlock first_minting = Some Outsider"
  by (rule mint_progress [OF first_minting_reachable]) (simp_all add: first_minting_def at_def)

text \<open>
  C14. Termination: however the requests are interleaved, whatever faults and interference they
  meet, a request takes at most 16 steps of its own, and each brings it closer to its end.
\<close>

theorem mint_request_terminates:
  assumes "mint_run roles s ls s'"
  shows "length (filter (\<lambda>l. actor l = Some i) ls) \<le> rank (mpc s i) - rank (mpc s' i) \<and> rank (mpc s i) \<le> 16"
  using rank_run [OF assms, of i] rank_bound by simp

theorem mint_request_terminates_witness:
  "length (filter (\<lambda>l. actor l = Some 0) [Local 0, Local 0, Local 0, Local 0, Local 0]) \<le> rank Idle - rank (Minting 0)"
  using mint_request_terminates [OF first_minting_run [of "\<lambda>_. zeroRole"], of 0]
  by (simp add: first_minting_def at_def)

text \<open>
  C39. The invalidation of the cache is not synchronised with the mints: a configuration or role
  write that drops the cached token while a mint is under way is undone when the mint stores its
  token, which was issued under the old configuration.
\<close>

theorem invalidation_race:
  "\<exists>s1 s2 s3 s4. mint_reachable roles s1 \<and> mpc s1 0 = Minting 0 \<and> mint_step roles s1 (Exchange 0) s2
    \<and> mint_step roles s2 Env s3 \<and> mcache s3 = None
    \<and> mint_step roles s3 (Local 0) s4 \<and> mcache s4 = Some (mintedToken 0 (roles 0) res)"
proof -
  let ?s2 = "at 0 (Storing 0 res) (first_minting\<lparr>mmints := 1\<rparr>)"
  let ?s3 = "?s2\<lparr>mcache := None\<rparr>"
  have "mint_step roles ?s3 (Local 0) (at 0 (Release (Inr (mintedToken 0 (roles 0) res, False)))
      (?s3\<lparr>mcache := Some (mintedToken 0 (roles 0) res)\<rparr>))"
    by (rule mint_step.store) (simp_all add: at_def)
  moreover have "mpc first_minting 0 = Minting 0" by (simp add: first_minting_def at_def)
  ultimately show ?thesis
    using first_minting_reachable [of roles] last_steps(1) [of roles res] mint_step.env_drop [of roles ?s2]
    by (intro exI [of _ first_minting] exI [of _ ?s2] exI [of _ ?s3] exI) auto
qed

end
