(* ===== verification/Mint_Simulation.thy ===== *)
theory Mint_Simulation
  imports Mint_Lock Scenario
begin

text \<open>
  The interleaved model of \<open>Mint_Lock\<close> covers the code as modelled in \<open>Creds\<close>: every call of
  \<^verbatim>\<open>issueToken\<close> is a run of one request of that model. The run is a restricted one, \<open>code_run\<close>: no
  other code interferes but while the call waits for the lock, and then only as the lock of the
  platform does; a fault is one the platform really has in the state at hand; and the run emits
  the history of the call, the lock operations and the requests of the mint.
\<close>

text \<open>What the interleaved model sees of a state of the plugin.\<close>

definition mintView ::
  "('w, 'b, 'k) platform \<Rightarrow> ('w, 'b) view \<Rightarrow> ('w \<Rightarrow> Time) \<Rightarrow> string \<Rightarrow> ('w, 'k) engine \<Rightarrow>
     holder option \<Rightarrow> nat \<Rightarrow> (nat \<Rightarrow> pc) \<Rightarrow> mint_state" where
  "mintView P view clk n s h m f =
     \<lparr>mcache = tokenAt P view s n, mlock = h, mtime = clk (ext s), mmints = m, mpc = f\<rparr>"

definition sees ::
  "('w, 'b, 'k) platform \<Rightarrow> ('w, 'b) view \<Rightarrow> ('w \<Rightarrow> Time) \<Rightarrow> string \<Rightarrow> mint_state \<Rightarrow> ('w, 'k) engine \<Rightarrow> bool" where
  "sees P view clk n a s \<longleftrightarrow> mcache a = tokenAt P view s n \<and> mtime a = clk (ext s)"

text \<open>Where a request goes when it cannot read the cache.\<close>

fun read_fault :: "gerror \<Rightarrow> pc \<Rightarrow> pc option" where
  "read_fault e Start = Some (Done (Inl e))"
| "read_fault e Contended = Some Waiting"
| "read_fault e Recheck = Some (Release (Inl e))"
| "read_fault e (Failed e') = Some (conclude e')"
| "read_fault e _ = None"

text \<open>
  The steps of the model that a call of the code can take as request \<open>i\<close>, with the events it
  emits: its own steps, faults of the platform in the state the model sees, and the wait for a
  lock that somebody else holds, after which the cache holds what it does after \<^verbatim>\<open>Lock\<close>.
\<close>

inductive code_step ::
  "('w, 'b, 'k) platform \<Rightarrow> ('w, 'b) view \<Rightarrow> ('w \<Rightarrow> Time) \<Rightarrow> string \<Rightarrow> salesforceConfig \<Rightarrow>
     (nat \<Rightarrow> salesforceRole) \<Rightarrow> nat \<Rightarrow> mint_state \<Rightarrow> event list \<Rightarrow> mint_state \<Rightarrow> bool"
  for P view clk n cfg roles i a where
  time: "0 \<le> d \<Longrightarrow> code_step P view clk n cfg roles i a [] (a\<lparr>mtime := mtime a + d\<rparr>)"
| own: "mint_step roles a (Local i) b \<Longrightarrow> mlock b = mlock a \<Longrightarrow> code_step P view clk n cfg roles i a [] b"
| locks: "mint_step roles a (Local i) b \<Longrightarrow> mlock a = None \<Longrightarrow> mlock b = Some (Request i) \<Longrightarrow>
    code_step P view clk n cfg roles i a [Locked (LockForKey P n)] b"
| unlocks: "mint_step roles a (Local i) b \<Longrightarrow> mlock a = Some (Request i) \<Longrightarrow> mlock b = None \<Longrightarrow>
    code_step P view clk n cfg roles i a [Unlocked (LockForKey P n)] b"
| waited: "mpc a i = Waiting \<Longrightarrow> mlock a = Some Outsider \<Longrightarrow> sees P view clk n a s1 \<Longrightarrow>
    s2 = lock P (LockForKey P n) s1 \<Longrightarrow>
    code_step P view clk n cfg roles i a [Locked (LockForKey P n)]
      (at i Recheck (a\<lparr>mcache := tokenAt P view s2 n, mtime := clk (ext s2), mlock := Some (Request i)\<rparr>))"
| answered: "mpc a i = Minting t0 \<Longrightarrow> mint_history P cfg (roles i) t evs (Inr res) \<Longrightarrow> t0 \<le> t \<Longrightarrow>
    code_step P view clk n cfg roles i a evs (at i (Storing t0 res) (a\<lparr>mmints := Suc (mmints a)\<rparr>))"
| unanswered: "mpc a i = Minting t0 \<Longrightarrow> mint_history P cfg (roles i) t evs (Inl e) \<Longrightarrow> t0 \<le> t \<Longrightarrow>
    code_step P view clk n cfg roles i a evs (at i (Failed e) a)"
| unread: "sees P view clk n a s1 \<Longrightarrow> getCachedToken P n s1 = (Inl e, s2) \<Longrightarrow> read_fault e (mpc a i) = Some q \<Longrightarrow>
    code_step P view clk n cfg roles i a [] (at i q a)"
| unstored: "mpc a i = Storing t0 res \<Longrightarrow> sees P view clk n a s1 \<Longrightarrow>
    putCachedToken P n (mintedToken t0 (roles i) res) s1 = (Inl e, s2) \<Longrightarrow>
    c \<in> {mcache a, Some (mintedToken t0 (roles i) res)} \<Longrightarrow>
    code_step P view clk n cfg roles i a [] (at i (Failed e) (a\<lparr>mcache := c\<rparr>))"
| unpurged: "mpc a i = Purging e \<Longrightarrow> sees P view clk n a s1 \<Longrightarrow> deleteCachedToken P n s1 = (Inl d, s2) \<Longrightarrow>
    c \<in> {mcache a, None} \<Longrightarrow> code_step P view clk n cfg roles i a [] (at i (Release (Inl d)) (a\<lparr>mcache := c\<rparr>))"

inductive code_run ::
  "('w, 'b, 'k) platform \<Rightarrow> ('w, 'b) view \<Rightarrow> ('w \<Rightarrow> Time) \<Rightarrow> string \<Rightarrow> salesforceConfig \<Rightarrow>
     (nat \<Rightarrow> salesforceRole) \<Rightarrow> nat \<Rightarrow> mint_state \<Rightarrow> event list \<Rightarrow> mint_state \<Rightarrow> bool"
  for P view clk n cfg roles i where
  stop: "code_run P view clk n cfg roles i a [] a"
| go: "code_step P view clk n cfg roles i a evs b \<Longrightarrow> code_run P view clk n cfg roles i b evs' c \<Longrightarrow>
    code_run P view clk n cfg roles i a (evs @ evs') c"

lemma code_run_trans:
  "code_run P view clk n cfg roles i a evs b \<Longrightarrow> code_run P view clk n cfg roles i b evs' c \<Longrightarrow>
    code_run P view clk n cfg roles i a (evs @ evs') c"
  by (induction rule: code_run.induct) (auto intro: code_run.go)

lemma code_run_step: "code_step P view clk n cfg roles i a evs b \<Longrightarrow> code_run P view clk n cfg roles i a evs b"
  using code_run.go [OF _ code_run.stop] by fastforce

lemma own_step:
  "mint_step roles a (Local i) (at i q a) \<Longrightarrow> code_step P view clk n cfg roles i a [] (at i q a)"
  by (rule code_step.own) simp_all

text \<open>
  \<open>covers s a s' b\<close>: what the plugin did from \<open>s\<close> to \<open>s'\<close> is a run of the model from \<open>a\<close> to \<open>b\<close>, with
  the same events.
\<close>

definition covers ::
  "('w, 'b, 'k) platform \<Rightarrow> ('w, 'b) view \<Rightarrow> ('w \<Rightarrow> event list) \<Rightarrow> ('w \<Rightarrow> Time) \<Rightarrow> string \<Rightarrow> salesforceConfig \<Rightarrow>
     (nat \<Rightarrow> salesforceRole) \<Rightarrow> nat \<Rightarrow> ('w, 'k) engine \<Rightarrow> mint_state \<Rightarrow> ('w, 'k) engine \<Rightarrow> mint_state \<Rightarrow> bool" where
  "covers P view trace clk n cfg roles i s a s' b \<longleftrightarrow>
     (\<exists>evs. added trace clk evs s s' \<and> code_run P view clk n cfg roles i a evs b)"

lemma covers_refl: "covers P view trace clk n cfg roles i s a s a"
  unfolding covers_def using code_run.stop added_refl by fastforce

lemma covers_trans:
  "covers P view trace clk n cfg roles i s a s1 b \<Longrightarrow> covers P view trace clk n cfg roles i s1 b s2 c \<Longrightarrow>
    covers P view trace clk n cfg roles i s a s2 c"
  unfolding covers_def using code_run_trans added_trans by metis

lemma run_tick:
  assumes "mtime a \<le> t"
  shows "code_run P view clk n cfg roles i a [] (a\<lparr>mtime := t\<rparr>)"
  using code_run_step [OF code_step.time [where a = a and d = "t - mtime a"]] assms by simp

lemma mintView_simps [simp]:
  "mcache (mintView P view clk n s h m f) = tokenAt P view s n" "mlock (mintView P view clk n s h m f) = h"
  "mtime (mintView P view clk n s h m f) = clk (ext s)" "mmints (mintView P view clk n s h m f) = m"
  "mpc (mintView P view clk n s h m f) = f"
  by (simp_all add: mintView_def)

lemma mintView_now [simp]: "(mintView P view clk n s h m f)\<lparr>mtime := clk (ext s)\<rparr> = mintView P view clk n s h m f"
  by (simp add: mintView_def)

lemma mintView_sees [simp]: "sees P view clk n (mintView P view clk n s h m f) s"
  by (simp add: sees_def)

lemma mint_state_eqI:
  "mcache a = mcache b \<Longrightarrow> mlock a = mlock b \<Longrightarrow> mtime a = mtime b \<Longrightarrow> mmints a = mmints b \<Longrightarrow> mpc a = mpc b \<Longrightarrow>
    a = (b :: mint_state)"
  by (cases a, cases b) simp

text \<open>
  The building block: wait until \<open>t\<close>, take a step that leads to \<open>b\<close>, and wait until the time of
  the next state.
\<close>

lemma sim_step:
  assumes "code_step P view clk n cfg roles i ((mintView P view clk n s h m f)\<lparr>mtime := t\<rparr>) evs b"
    and "clk (ext s) \<le> t" "mtime b \<le> clk (ext s')" "added trace clk evs s s'"
    and "mcache b = tokenAt P view s' n" "mlock b = h'" "mmints b = m'" "mpc b = f'"
  shows "covers P view trace clk n cfg roles i s (mintView P view clk n s h m f) s' (mintView P view clk n s' h' m' f')"
proof -
  let ?run = "code_run P view clk n cfg roles i"
  have "?run (mintView P view clk n s h m f) [] ((mintView P view clk n s h m f)\<lparr>mtime := t\<rparr>)"
    by (rule run_tick) (simp add: assms(2))
  from code_run_trans [OF code_run_trans [OF this code_run_step [OF assms(1)]] run_tick [OF assms(3)]]
  have "?run (mintView P view clk n s h m f) evs (b\<lparr>mtime := clk (ext s')\<rparr>)" by simp
  moreover have "b\<lparr>mtime := clk (ext s')\<rparr> = mintView P view clk n s' h' m' f'"
    by (rule mint_state_eqI) (simp_all add: assms(5-8))
  ultimately show ?thesis unfolding covers_def using assms(4) by auto
qed

context observed
begin

abbreviation cov where "cov \<equiv> covers P view trace clk"

lemma sim_local:
  assumes "mint_step roles ((mintView P view clk n s h m f)\<lparr>mtime := t\<rparr>) (Local i)
      (at i q ((mintView P view clk n s h m f)\<lparr>mtime := t\<rparr>))"
    and "clk (ext s) \<le> t" "t \<le> clk (ext s')" "same_store view s s'" "added trace clk [] s s'"
  shows "cov n cfg roles i s (mintView P view clk n s h m f) s' (mintView P view clk n s' h m (f(i := q)))"
  by (rule sim_step [OF own_step [OF assms(1)] assms(2)])
    (use assms(3,5) same_store_contents(3) [OF assms(4), of P] in simp_all)

text \<open>A read of the cache, with its outcome.\<close>

lemma sim_lookup:
  assumes "getCachedToken P n s = (g, s1)"
    and "\<And>oct. g = Inr oct \<Longrightarrow> mint_step roles (mintView P view clk n s h m f) (Local i) (at i q (mintView P view clk n s h m f))"
    and "\<And>e. g = Inl e \<Longrightarrow> read_fault e (f i) = Some q"
  shows "cov n cfg roles i s (mintView P view clk n s h m f) s1 (mintView P view clk n s1 h m (f(i := q)))"
proof -
  note gs = getCachedToken_spec(1) [OF assms(1)] and gq = getCachedToken_quiet [OF assms(1)]
  have "code_step P view clk n cfg roles i (mintView P view clk n s h m f) [] (at i q (mintView P view clk n s h m f))"
  proof (cases g)
    case (Inl e)
    then show ?thesis using assms(1,3) by (intro code_step.unread [of P view clk n _ s e s1]) simp_all
  next
    case (Inr oct)
    then show ?thesis using own_step assms(2) by blast
  qed
  then show ?thesis
    by (intro sim_step [where t = "clk (ext s)" and b = "at i q (mintView P view clk n s h m f)", OF _ _ _ gq])
      (use added_clock [OF gq] same_store_contents(3) [OF gs, of P] in simp_all)
qed

lemma sim_mint:
  assumes "mintAndCache P n cfg (roles i) s = (r, s')" "key_cache_ok P s" "f i = MintStart"
  shows "\<exists>m'. cov n cfg roles i s (mintView P view clk n s h m f) s' (mintView P view clk n s' h m'
    (f(i := case r of Inr ct \<Rightarrow> Release (Inr (ct, False)) | Inl e \<Rightarrow> Failed e)))"
proof -
  let ?M = "mintView P view clk n" and ?f = "\<lambda>q. f(i := q)" and ?cov = "cov n cfg roles i"
  obtain t0 s1 where nw: "now P s = (t0, s1)" by fastforce
  obtain x s2 where mt: "mintToken P cfg (roles i) s1 = (x, s2)" by fastforce
  note nq = now_quiet_s [OF nw]
  have k1: "key_cache_ok P s1" using assms(2) now_same [OF nw] key_cache_ok_same by blast
  obtain t evs where hist: "added trace clk evs s1 s2" "mint_history P cfg (roles i) t evs x" "clk (ext s1) \<le> t"
    using mt k1 by (rule mintToken_history) blast
  have later: "clk (ext s1) \<le> clk (ext s2)" and t: "t0 \<le> t" using added_clock [OF hist(1)] nq(3) hist(3) by simp_all
  have same: "same_store view s1 s2" using mintToken_frame [OF mt] by blast
  have start: "?cov s (?M s h m f) s1 (?M s1 h m (?f (Minting t0)))"
    by (rule sim_local [where t = t0])
      (use nq now_same [OF nw] assms(3) mint_step.mint_start [of "(?M s h m f)\<lparr>mtime := t0\<rparr>" i roles] in simp_all)
  show ?thesis
  proof (cases x)
    case (Inl e)
    then have r: "r = Inl e" "s' = s2" using assms(1) nw mt by (auto simp: mintAndCache_def)
    have "?cov s1 (?M s1 h m (?f (Minting t0))) s2 (?M s2 h m (?f (Failed e)))"
      by (rule sim_step [OF code_step.unanswered [of _ i t0 P cfg roles t evs e]])
        (use hist t later same_store_contents(3) [OF same, of P] Inl in simp_all)
    then show ?thesis using covers_trans [OF start] r by auto
  next
    case (Inr res)
    let ?ct = "mintedToken t0 (roles i) res"
    obtain p s3 where put: "putCachedToken P n ?ct s2 = (p, s3)" by fastforce
    note pq = putCachedToken_quiet [OF put]
    have storable: "token_text ?ct" using mintToken_text mt Inr mintedToken_text by blast
    have sent: "?cov s1 (?M s1 h m (?f (Minting t0))) s2 (?M s2 h (Suc m) (?f (Storing t0 res)))"
      by (rule sim_step [OF code_step.answered [of _ i t0 P cfg roles t evs res]])
        (use hist t later same_store_contents(3) [OF same, of P] Inr in simp_all)
    have "?cov s2 (?M s2 h (Suc m) (?f (Storing t0 res))) s' (?M s' h (Suc m)
      (?f (case r of Inr ct \<Rightarrow> Release (Inr (ct, False)) | Inl e \<Rightarrow> Failed e)))"
    proof (cases p)
      case (Inl e)
      then have r: "r = Inl e" "s' = s3" using assms(1) nw mt put Inr by (auto simp: mintAndCache_def)
      show ?thesis
        by (rule sim_step [where t = "clk (ext s2)", OF code_step.unstored [of _ i t0 res P view clk n s2 roles e s3 "tokenAt P view s3 n"]])
          (use Inl put pq added_clock [OF pq] putCachedToken_self [OF put storable] r in simp_all)
    next
      case (Inr u)
      then have r: "r = Inr ?ct" "tokenAt P view s' n = Some ?ct" "ext s' = ext s3"
        using assms(1) nw mt put \<open>x = Inr res\<close> putCachedToken_spec(6) [OF put] storable
        by (auto simp: mintAndCache_def Let_def)
      have "added trace clk [] s2 s'" using pq r(3) by (simp add: added_def)
      then show ?thesis
        by (intro sim_step [where t = "clk (ext s2)", OF code_step.own [OF mint_step.store [of _ i t0 res _ roles, OF _ refl]]])
          (use added_clock [of trace clk "[]" s2 s'] r in simp_all)
    qed
    then show ?thesis using covers_trans [OF covers_trans [OF start sent]] by blast
  qed
qed

lemma sim_purge:
  assumes "deleteCachedToken P n s = (d, s')" "f i = Purging e"
  shows "cov n cfg roles i s (mintView P view clk n s h m f) s' (mintView P view clk n s' h m
    (f(i := Release (Inl (case d of Inl dErr \<Rightarrow> dErr | Inr _ \<Rightarrow> e)))))"
proof -
  note quiet = deleteCachedToken_quiet [OF assms(1)]
  show ?thesis
  proof (cases d)
    case (Inl dErr)
    show ?thesis
      by (rule sim_step [where t = "clk (ext s)", OF code_step.unpurged [of _ i e P view clk n s dErr s' "tokenAt P view s' n"]])
        (use Inl assms quiet added_clock [OF quiet] tc.del_cases [OF assms(1)] in simp_all)
  next
    case (Inr u)
    show ?thesis
      by (rule sim_step [where t = "clk (ext s)", OF code_step.own [OF mint_step.purge [of _ i e roles]]])
        (use Inr assms quiet added_clock [OF quiet] tc.del_result in simp_all)
  qed
qed

lemma sim_conclude:
  assumes "f i = conclude e"
    and "(if \<not> isTransientMintError e then (case deleteCachedToken P n s of
      (Inl dErr, s) \<Rightarrow> (Inl dErr, s) | (Inr _, s) \<Rightarrow> (Inl e, s)) else (Inl e, s)) = (r, s')"
  shows "cov n cfg roles i s (mintView P view clk n s h m f) s' (mintView P view clk n s' h m (f(i := Release r)))"
proof (cases "isTransientMintError e")
  case True
  then have "f(i := Release r) = f" "s' = s" using assms by (auto simp: conclude_def)
  then show ?thesis using covers_refl by simp
next
  case False
  then have p: "f i = Purging e" using assms(1) by (simp add: conclude_def)
  obtain d s1 where d: "deleteCachedToken P n s = (d, s1)" by fastforce
  then have "r = Inl (case d of Inl dErr \<Rightarrow> dErr | Inr _ \<Rightarrow> e)" "s' = s1"
    using assms(2) False by (auto split: sum.splits)
  then show ?thesis using sim_purge [OF d, where f = f and i = i] p by simp
qed

lemma sim_mintFailed:
  assumes "mintFailed P n e s = (r, s')" "f i = Failed e"
  shows "cov n cfg roles i s (mintView P view clk n s h m f) s' (mintView P view clk n s' h m (f(i := Release r)))"
proof -
  let ?M = "mintView P view clk n" and ?f = "\<lambda>q. f(i := q)" and ?cov = "cov n cfg roles i"
  obtain g s1 where g: "getCachedToken P n s = (g, s1)" by fastforce
  obtain u s2 where u: "ifUnexpired P g s1 = (u, s2)" by fastforce
  note look = sim_lookup [OF g, where roles = roles and h = h and m = m and f = f and i = i]
  have end_: "?cov s2 (?M s2 h m (?f (conclude e))) s' (?M s' h m (?f (Release r)))"
    if "\<not> (u \<noteq> None \<and> isTransientMintError e)"
    using sim_conclude [where f = "?f (conclude e)" and i = i and e = e and s = s2 and n = n and r = r and s' = s'] assms(1) g u that
    by (auto simp: mintFailed_def)
  show ?thesis
  proof (cases "\<exists>ct. g = Inr (Some ct)")
    case False
    then have none: "s2 = s1" "u = None" using u by (auto simp: ifUnexpired_def split: sum.splits option.splits)
    have "?cov s (?M s h m f) s1 (?M s1 h m (?f (conclude e)))"
    proof (rule look)
      fix oct
      assume "g = Inr oct"
      then have "tokenAt P view s n = None" using False getCachedToken_spec(4) [OF g] by (cases oct) auto
      then show "mint_step roles (?M s h m f) (Local i) (at i (conclude e) (?M s h m f))"
        using mint_step.failed_none [of "?M s h m f" i e] assms(2) by simp
    qed (simp add: assms(2))
    then show ?thesis using covers_trans end_ none by simp
  next
    case True
    then obtain ct where ct: "g = Inr (Some ct)" by blast
    obtain t where t: "now P s1 = (t, s2)" "u = (if Time_Before t (ExpiresAt ct) then Some ct else None)"
      using u ct by (auto simp: ifUnexpired_def split: prod.splits if_splits)
    have first: "?cov s (?M s h m f) s1 (?M s1 h m (?f (Fallback e ct)))"
      by (rule look) (use assms(2) ct getCachedToken_spec(4) [OF g ct] in \<open>auto intro: mint_step.failed_read\<close>)
    have check: "?cov s1 (?M s1 h m (?f (Fallback e ct))) s2 (?M s2 h m (?f q))"
      if "mint_step roles ((?M s1 h m (?f (Fallback e ct)))\<lparr>mtime := t\<rparr>) (Local i)
        (at i q ((?M s1 h m (?f (Fallback e ct)))\<lparr>mtime := t\<rparr>))" for q
      using sim_local [OF that] now_quiet_s [OF t(1)] now_same [OF t(1)] by simp
    show ?thesis
    proof (cases "Time_Before t (ExpiresAt ct) \<and> isTransientMintError e")
      case True
      then have r: "r = Inr (ct, True)" "ext s' = ext s2"
        using assms(1) g u t(2) by (auto simp: mintFailed_def)
      have "?cov s (?M s h m f) s2 (?M s2 h m (?f (Release r)))"
        by (rule covers_trans [OF first check]) (use True r in \<open>auto intro: mint_step.degrade\<close>)
      then show ?thesis using r(2) by (simp add: covers_def added_def mintView_def tokenAt_def)
    next
      case False
      then have "?cov s2 (?M s2 h m (?f (conclude e))) s' (?M s' h m (?f (Release r)))"
        using end_ t(2) by (auto split: if_splits)
      moreover have "?cov s1 (?M s1 h m (?f (Fallback e ct))) s2 (?M s2 h m (?f (conclude e)))"
        by (rule check) (use False in \<open>auto intro: mint_step.give_up\<close>)
      ultimately show ?thesis using covers_trans [OF first covers_trans] by simp
    qed
  qed
qed

text \<open>The two checks of the cache, before and under the lock, have the same shape.\<close>

lemma sim_ifFresh:
  assumes g: "getCachedToken P n s = (Inr oct, s1)" and u: "ifFresh P (roles i) oct s1 = (u, s2)"
    and none: "\<And>a. mpc a i = f i \<Longrightarrow> mcache a = None \<Longrightarrow> mint_step roles a (Local i) (at i miss a)"
    and read: "\<And>a ct. mpc a i = f i \<Longrightarrow> mcache a = Some ct \<Longrightarrow> mint_step roles a (Local i) (at i (look ct) a)"
    and hit: "\<And>a ct. mpc a i = look ct \<Longrightarrow> fresh ct (mtime a) (RenewSkew (roles i)) \<Longrightarrow>
      mint_step roles a (Local i) (at i (give ct) a)"
    and stale: "\<And>a ct. mpc a i = look ct \<Longrightarrow> \<not> fresh ct (mtime a) (RenewSkew (roles i)) \<Longrightarrow>
      mint_step roles a (Local i) (at i miss a)"
  shows "cov n cfg roles i s (mintView P view clk n s h m f) s2
    (mintView P view clk n s2 h m (f(i := case u of Some ct \<Rightarrow> give ct | None \<Rightarrow> miss)))"
proof -
  let ?M = "mintView P view clk n" and ?f = "\<lambda>q. f(i := q)" and ?cov = "cov n cfg roles i"
  note look = sim_lookup [OF g, where roles = roles and h = h and m = m and f = f and i = i]
  note tok = getCachedToken_spec(4) [OF g refl]
  show ?thesis
  proof (cases oct)
    case None
    then show ?thesis using look [OF none] tok u by (simp add: ifFresh_def)
  next
    case (Some ct)
    obtain t where t: "now P s1 = (t, s2)" "u = (if fresh ct t (RenewSkew (roles i)) then Some ct else None)"
      using u Some by (auto simp: ifFresh_def split: prod.splits if_splits)
    have "?cov s (?M s h m f) s1 (?M s1 h m (?f (look ct)))" using look [OF read] tok Some by simp
    moreover have "?cov s1 (?M s1 h m (?f (look ct))) s2 (?M s2 h m (?f (case u of Some ct \<Rightarrow> give ct | None \<Rightarrow> miss)))"
      using sim_local [where f = "?f (look ct)" and s = s1 and s' = s2 and t = t and i = i]
        hit [of "(?M s1 h m (?f (look ct)))\<lparr>mtime := t\<rparr>" ct] stale [of "(?M s1 h m (?f (look ct)))\<lparr>mtime := t\<rparr>" ct]
        now_quiet_s [OF t(1)] now_same [OF t(1)] t(2) by simp
    ultimately show ?thesis by (rule covers_trans)
  qed
qed

lemma sim_issueByMint:
  assumes "issueByMint P n cfg (roles i) s = (r, s')" "key_cache_ok P s" "f i = MintStart"
  shows "\<exists>m'. cov n cfg roles i s (mintView P view clk n s h m f) s' (mintView P view clk n s' h m' (f(i := Release r)))"
proof -
  let ?M = "mintView P view clk n" and ?f = "\<lambda>q. f(i := q)" and ?cov = "cov n cfg roles i"
  obtain x s1 where x: "mintAndCache P n cfg (roles i) s = (x, s1)" by fastforce
  obtain m' where m': "?cov s (?M s h m f) s1 (?M s1 h m'
      (?f (case x of Inr ct \<Rightarrow> Release (Inr (ct, False)) | Inl e \<Rightarrow> Failed e)))"
    using sim_mint [where roles = roles and i = i and f = f, OF x assms(2,3)] by blast
  show ?thesis
  proof (cases x)
    case (Inl e)
    then have "?cov s1 (?M s1 h m' (?f (Failed e))) s' (?M s' h m' ((?f (Failed e))(i := Release r)))"
      using sim_mintFailed [where f = "?f (Failed e)" and i = i] assms(1) x by (simp add: issueByMint_def)
    then show ?thesis using m' Inl covers_trans by fastforce
  next
    case (Inr ct)
    then show ?thesis using m' assms(1) x by (auto simp: issueByMint_def)
  qed
qed

lemma sim_issueUnderLock:
  assumes "issueUnderLock P n cfg (roles i) s = (r, s')" "key_cache_ok P s" "f i = Recheck"
  shows "\<exists>m'. cov n cfg roles i s (mintView P view clk n s h m f) s' (mintView P view clk n s' h m' (f(i := Release r)))"
proof -
  let ?M = "mintView P view clk n" and ?f = "\<lambda>q. f(i := q)" and ?cov = "cov n cfg roles i"
  obtain g s1 where g: "getCachedToken P n s = (g, s1)" by fastforce
  show ?thesis
  proof (cases g)
    case (Inl e)
    then have r: "r = Inl e" "s' = s1" using assms(1) g by (auto simp: issueUnderLock_def)
    show ?thesis unfolding r by (rule exI, rule sim_lookup [OF g]) (use Inl assms(3) in simp_all)
  next
    case (Inr oct)
    obtain u s2 where u: "ifFresh P (roles i) oct s1 = (u, s2)" by fastforce
    have k: "key_cache_ok P s2"
      using assms(2) getCachedToken_spec(2) [OF g] ifFresh_spec(1) [OF u] by (metis key_cache_ok_same)
    have check: "?cov s (?M s h m f) s2
        (?M s2 h m (?f (case u of Some ct \<Rightarrow> Release (Inr (ct, True)) | None \<Rightarrow> MintStart)))"
      by (rule sim_ifFresh [where roles = roles and i = i, OF g [unfolded Inr] u])
        (auto simp: assms(3) intro: mint_step.recheck_none mint_step.recheck_read mint_step.recheck_hit
          mint_step.recheck_stale)
    show ?thesis
    proof (cases u)
      case None
      then have "issueByMint P n cfg (roles i) s2 = (r, s')" using assms(1) g Inr u by (simp add: issueUnderLock_def)
      from sim_issueByMint [where roles = roles and i = i and f = "?f MintStart", OF this k]
      show ?thesis using check None covers_trans by fastforce
    next
      case (Some ct)
      then show ?thesis using check assms(1) g Inr u by (auto simp: issueUnderLock_def)
    qed
  qed
qed

lemma sim_spare:
  assumes g: "getCachedToken P n s = (g, s1)" and v: "ifUnexpired P g s1 = (v, s2)" and f: "f i = Contended"
  shows "cov n cfg roles i s (mintView P view clk n s h m f) s2
    (mintView P view clk n s2 h m (f(i := case v of Some ct \<Rightarrow> Done (Inr (ct, True)) | None \<Rightarrow> Waiting)))"
proof -
  let ?M = "mintView P view clk n" and ?f = "\<lambda>q. f(i := q)" and ?cov = "cov n cfg roles i"
  note look = sim_lookup [OF g, where roles = roles and h = h and m = m and f = f and i = i]
  show ?thesis
  proof (cases "\<exists>ct. g = Inr (Some ct)")
    case False
    then have none: "s2 = s1" "v = None" using v by (auto simp: ifUnexpired_def split: sum.splits option.splits)
    have "?cov s (?M s h m f) s1 (?M s1 h m (?f Waiting))"
    proof (rule look)
      fix oct
      assume "g = Inr oct"
      then have "tokenAt P view s n = None" using False getCachedToken_spec(4) [OF g] by (cases oct) auto
      then show "mint_step roles (?M s h m f) (Local i) (at i Waiting (?M s h m f))"
        using mint_step.spare_none [of "?M s h m f" i] f by simp
    qed (simp add: f)
    then show ?thesis using none by simp
  next
    case True
    then obtain ct where ct: "g = Inr (Some ct)" by blast
    obtain t where t: "now P s1 = (t, s2)" "v = (if Time_Before t (ExpiresAt ct) then Some ct else None)"
      using v ct by (auto simp: ifUnexpired_def split: prod.splits if_splits)
    have "?cov s (?M s h m f) s1 (?M s1 h m (?f (Spare ct)))"
      by (rule look) (use f ct getCachedToken_spec(4) [OF g ct] in \<open>auto intro: mint_step.spare_read\<close>)
    moreover have "?cov s1 (?M s1 h m (?f (Spare ct))) s2
        (?M s2 h m (?f (case v of Some ct \<Rightarrow> Done (Inr (ct, True)) | None \<Rightarrow> Waiting)))"
      using sim_local [where f = "?f (Spare ct)" and s = s1 and s' = s2 and t = t and i = i]
        mint_step.serve_old [of "(?M s1 h m (?f (Spare ct)))\<lparr>mtime := t\<rparr>" i ct]
        mint_step.wait_lock [of "(?M s1 h m (?f (Spare ct)))\<lparr>mtime := t\<rparr>" i ct]
        now_quiet_s [OF t(1)] now_same [OF t(1)] t(2) by simp
    ultimately show ?thesis by (rule covers_trans)
  qed
qed

text \<open>Taking the lock, from a state where it is free or an outsider has it.\<close>

lemma sim_acquire:
  assumes "acquireMintLock P n s = (u, s')" "f i = TryLocking"
  shows "\<exists>h \<in> {None, Some Outsider}. cov n cfg roles i s (mintView P view clk n s h m f) s' (case u of
      Some ct \<Rightarrow> mintView P view clk n s' h m (f(i := Done (Inr (ct, True))))
    | None \<Rightarrow> mintView P view clk n s' (Some (Request i)) m (f(i := Recheck)))"
proof -
  let ?M = "mintView P view clk n" and ?f = "\<lambda>q. f(i := q)" and ?ix = "LockForKey P n" and ?cov = "cov n cfg roles i"
  obtain got s1 where tl: "try_lock P ?ix s = (got, s1)" by fastforce
  note tls = try_lock_spec [OF tl]
  note clk1 = added_clock [OF tls(3)] and tok1 = same_store_contents(3) [OF tls(1), of P]
  show ?thesis
  proof (cases got)
    case True
    then have "u = None" "s' = s1" using assms(1) tl by (auto simp: acquireMintLock_def)
    moreover have "?cov s (?M s None m f) s1 (?M s1 (Some (Request i)) m (?f Recheck))"
      by (rule sim_step [where t = "clk (ext s)", OF code_step.locks [OF mint_step.try_ok [of _ i roles]]])
        (use assms(2) tls(3) True clk1 tok1 in simp_all)
    ultimately show ?thesis by (intro bexI [of _ None]) simp_all
  next
    case False
    let ?h = "Some Outsider"
    obtain g s2 where g: "getCachedToken P n s1 = (g, s2)" by fastforce
    obtain v s3 where v: "ifUnexpired P g s2 = (v, s3)" by fastforce
    have end_: "u = v" "s' = (if v = None then lock P ?ix s3 else s3)"
      using assms(1) tl False g v by (auto simp: acquireMintLock_def split: option.splits)
    have "?cov s (?M s ?h m f) s1 (?M s1 ?h m (?f Contended))"
      by (rule sim_local [where t = "clk (ext s)"])
        (use assms(2) tls clk1 False in \<open>simp_all add: mint_step.try_fail\<close>)
    moreover have "?cov s1 (?M s1 ?h m (?f Contended)) s3
        (?M s3 ?h m (?f (case v of Some ct \<Rightarrow> Done (Inr (ct, True)) | None \<Rightarrow> Waiting)))"
      using sim_spare [OF g v, where f = "?f Contended" and i = i] by simp
    ultimately have spare: "?cov s (?M s ?h m f) s3
        (?M s3 ?h m (?f (case v of Some ct \<Rightarrow> Done (Inr (ct, True)) | None \<Rightarrow> Waiting)))"
      by (rule covers_trans)
    show ?thesis
    proof (cases v)
      case None
      have s': "s' = lock P ?ix s3" using end_(2) None by simp
      have "?cov s3 (?M s3 ?h m (?f Waiting)) s' (?M s' (Some (Request i)) m (?f Recheck))"
        by (rule sim_step [where t = "clk (ext s3)", OF code_step.waited [of _ i P view clk n s3 s']])
          (use s' lock_spec(1) in simp_all)
      then show ?thesis using covers_trans [OF spare] None end_(1) by (intro bexI [of _ ?h]) simp_all
    next
      case (Some ct)
      then show ?thesis using spare end_ by (intro bexI [of _ ?h]) simp_all
    qed
  qed
qed

lemma sim_issueToken:
  assumes "issueToken P n cfg (roles i) s = (r, s')" "key_cache_ok P s" "f i = Start"
  shows "\<exists>h \<in> {None, Some Outsider}. \<exists>h' m'.
    cov n cfg roles i s (mintView P view clk n s h m f) s' (mintView P view clk n s' h' m' (f(i := Done r)))"
proof -
  let ?M = "mintView P view clk n" and ?f = "\<lambda>q. f(i := q)" and ?ix = "LockForKey P n" and ?cov = "cov n cfg roles i"
  obtain g s1 where g: "getCachedToken P n s = (g, s1)" by fastforce
  show ?thesis
  proof (cases g)
    case (Inl e)
    then have r: "r = Inl e" "s' = s1" using assms(1) g by (auto simp: issueToken_def)
    have "?cov s (?M s None m f) s1 (?M s1 None m (?f (Done (Inl e))))"
      by (rule sim_lookup [OF g]) (use Inl assms(3) in simp_all)
    then show ?thesis using r by blast
  next
    case (Inr oct)
    obtain u s2 where u: "ifFresh P (roles i) oct s1 = (u, s2)" by fastforce
    obtain v s3 where v: "acquireMintLock P n s2 = (v, s3)" by fastforce
    obtain x s4 where x: "issueUnderLock P n cfg (roles i) s3 = (x, s4)" by fastforce
    have keys: "rsaKeyCache s3 = rsaKeyCache s2" by (rule acquireMintLock_cases [OF v])
    have k: "key_cache_ok P s3"
      using assms(2) getCachedToken_spec(2) [OF g] ifFresh_spec(1) [OF u] keys by (metis key_cache_ok_same)
    have check: "?cov s (?M s h m f) s2
        (?M s2 h m (?f (case u of Some ct \<Rightarrow> Done (Inr (ct, True)) | None \<Rightarrow> TryLocking)))" for h
      by (rule sim_ifFresh [where roles = roles and i = i, OF g [unfolded Inr] u])
        (auto simp: assms(3) intro: mint_step.fast_none mint_step.fast_read mint_step.fast_hit mint_step.fast_stale)
    show ?thesis
    proof (cases u)
      case None
      have "\<exists>h \<in> {None, Some Outsider}. ?cov s2 (?M s2 h m (?f TryLocking)) s3 (case v of
          Some ct \<Rightarrow> ?M s3 h m (?f (Done (Inr (ct, True)))) | None \<Rightarrow> ?M s3 (Some (Request i)) m (?f Recheck))"
        using sim_acquire [where f = "?f TryLocking" and i = i and m = m and cfg = cfg and roles = roles, OF v fun_upd_same,
            unfolded fun_upd_upd] .
      then obtain h where h: "h \<in> {None, Some Outsider}" and acq: "?cov s2 (?M s2 h m (?f TryLocking)) s3 (case v of
          Some ct \<Rightarrow> ?M s3 h m (?f (Done (Inr (ct, True)))) | None \<Rightarrow> ?M s3 (Some (Request i)) m (?f Recheck))"
        by (rule bexE)
      note first = covers_trans [OF check [of h, unfolded None option.case] acq]
      show ?thesis
      proof (cases v)
        case None
        obtain m' where m': "?cov s3 (?M s3 (Some (Request i)) m (?f Recheck)) s4 (?M s4 (Some (Request i)) m' (?f (Release x)))"
          using sim_issueUnderLock [where roles = roles and i = i and f = "?f Recheck", OF x k] by auto
        have r: "r = x" "s' = unlock P ?ix s4" using assms(1) g Inr u \<open>u = None\<close> v None x by (auto simp: issueToken_def)
        note us = unlock_spec(1) [of ?ix s4]
        have last: "?cov s4 (?M s4 (Some (Request i)) m' (?f (Release x))) s' (?M s' None m' (?f (Done x)))"
          by (rule sim_step [where t = "clk (ext s4)", OF code_step.unlocks [OF mint_step.release [of _ i x roles]]])
            (use r(2) us added_clock [OF us] same_store_contents(3) [OF unlock_spec(3) [of s4 ?ix], of P] in simp_all)
        have "?cov s (?M s h m f) s3 (?M s3 (Some (Request i)) m (?f Recheck))" using first None by simp
        then have "?cov s (?M s h m f) s' (?M s' None m' (?f (Done r)))"
          using covers_trans [OF covers_trans [OF _ m'] last] r(1) by simp
        then show ?thesis using h by blast
      next
        case (Some ct)
        then show ?thesis using h first assms(1) g Inr u \<open>u = None\<close> v by (auto simp: issueToken_def)
      qed
    next
      case (Some ct)
      then show ?thesis using check assms(1) g Inr u by (auto simp: issueToken_def)
    qed
  qed
qed

section \<open>The restricted runs are runs\<close>

lemma run_one: "mint_step roles a l b \<Longrightarrow> \<exists>ls. mint_run roles a ls b"
  using mint_run_step by blast

text \<open>While a call waits, the outsider that holds the lock changes the cache and gives the lock back.\<close>

lemma waited_run:
  assumes "mpc a i = Waiting" "mlock a = Some Outsider" "mtime a \<le> t"
  shows "\<exists>ls. mint_run roles a ls (at i Recheck (a\<lparr>mcache := c, mtime := t, mlock := Some (Request i)\<rparr>))"
proof -
  let ?b = "a\<lparr>mtime := t\<rparr>"
  have tick: "mint_step roles a Tick ?b" using mint_step.tick [of "t - mtime a" roles a] assms(3) by simp
  have env: "mint_step roles ?b Env (?b\<lparr>mcache := c\<rparr>)"
    using mint_step.env_drop [of roles ?b] mint_step.env_store [of ?b roles] assms(2) by (cases c) simp_all
  have free: "mint_step roles (?b\<lparr>mcache := c\<rparr>) Env (?b\<lparr>mcache := c, mlock := None\<rparr>)"
    using mint_step.env_unlock [of "?b\<lparr>mcache := c\<rparr>" roles] assms(2) by simp
  have "mint_step roles (?b\<lparr>mcache := c, mlock := None\<rparr>) (Local i)
      (at i Recheck (a\<lparr>mcache := c, mtime := t, mlock := Some (Request i)\<rparr>))"
  proof -
    have eq: "at i Recheck (a\<lparr>mcache := c, mtime := t, mlock := Some (Request i)\<rparr>)
        = at i Recheck (?b\<lparr>mcache := c, mlock := None, mlock := Some (Request i)\<rparr>)"
      by (rule mint_state_eqI) simp_all
    show ?thesis unfolding eq by (rule mint_step.acquire) (simp_all add: assms(1))
  qed
  then show ?thesis using tick env free mint_run.intros by meson
qed

lemma code_step_run:
  assumes "code_step P view clk n cfg roles i a evs b"
  shows "\<exists>ls. mint_run roles a ls b"
  using assms
proof cases
  case (time d)
  then show ?thesis using run_one mint_step.tick by blast
next
  case (waited s1 s2)
  have "mtime a \<le> clk (ext s2)" using waited(5,6) added_clock [OF lock_spec(1)] by (simp add: sees_def)
  then show ?thesis using waited_run [OF waited(3,4)] waited(2) by simp
next
  case (unread s1 e s2 q)
  have "mint_step roles a (Fault i) (at i q a)"
    using unread(5) by (cases "mpc a i")
      (auto intro: mint_step.fast_error mint_step.spare_error mint_step.recheck_error mint_step.failed_error)
  then show ?thesis using run_one unread(2) by simp
qed (use run_one mint_step.minted mint_step.mint_failed mint_step.store_failed mint_step.purge_failed in metis)+

lemma code_run_run: "code_run P view clk n cfg roles i a evs b \<Longrightarrow> \<exists>ls. mint_run roles a ls b"
proof (induction rule: code_run.induct)
  case (stop a)
  then show ?case using mint_run.stop by blast
next
  case (go a evs b evs' c)
  then show ?case using code_step_run [OF go.hyps(1)] mint_run_trans by blast
qed

end

section \<open>The code is covered\<close>

text \<open>
  C6. The interleaved model covers the code: every call of \<^verbatim>\<open>issueToken\<close> is a run of one request
  of the model from its start to its return, with the same result, on the cached token, the clock
  and the lock of the role, while all other requests stay where they are. The run is restricted:
  the history of the call is the one the run emits, with the lock operations and the requests of
  its mint in their places; a fault is one of the storage in the state the model sees at that
  point; and nothing interferes except while the call waits for a lock that was held when it
  began, after which the cache is what the platform's \<^verbatim>\<open>Lock\<close> leaves.
\<close>

theorem issue_token_is_mint_run:
  assumes "observed P view trace clk" "key_cache_ok P s" "issueToken P n cfg (roles i) s = (r, s')" "f i = Start"
  shows "\<exists>h \<in> {None, Some Outsider}. \<exists>h' m' evs. trace (ext s') = trace (ext s) @ evs
    \<and> code_run P view clk n cfg roles i (mintView P view clk n s h m f) evs (mintView P view clk n s' h' m' (f(i := Done r)))
    \<and> (\<exists>ls. mint_run roles (mintView P view clk n s h m f) ls (mintView P view clk n s' h' m' (f(i := Done r))))"
proof -
  obtain h h' m' evs where "h \<in> {None, Some Outsider}" "added trace clk evs s s'"
    "code_run P view clk n cfg roles i (mintView P view clk n s h m f) evs (mintView P view clk n s' h' m' (f(i := Done r)))"
    using observed.sim_issueToken [where roles = roles and i = i and f = f, OF assms(1,3,2,4)] unfolding covers_def by blast
  moreover from this(3) obtain ls where
    "mint_run roles (mintView P view clk n s h m f) ls (mintView P view clk n s' h' m' (f(i := Done r)))"
    using observed.code_run_run [OF assms(1)] by blast
  ultimately show ?thesis by (auto simp: added_def adds_def)
qed

theorem issue_token_is_mint_run_witness:
  "\<exists>r s' h h' evs m'. issueToken test_platform ''app'' org_config app_role with_role = (r, s')
    \<and> tw_history (ext s') = evs
    \<and> code_run test_platform test_view tw_clock ''app'' org_config (\<lambda>_. app_role) 7
      (mintView test_platform test_view tw_clock ''app'' with_role h 0 (\<lambda>_. Start)) evs
      (mintView test_platform test_view tw_clock ''app'' s' h' m' ((\<lambda>_. Start)(7 := Done r)))"
proof -
  obtain r s' where i: "issueToken test_platform ''app'' org_config app_role with_role = (r, s')" by fastforce
  have k: "key_cache_ok test_platform with_role" and "tw_history (ext with_role) = []"
    by (simp_all add: key_cache_ok_def with_role_state start_def)
  then show ?thesis
    using issue_token_is_mint_run [OF test_events.observed_axioms k, of "''app''" org_config "\<lambda>_. app_role" 7 r s' "\<lambda>_. Start" 0] i
    by fastforce
qed

end
