(* ===== verification/Spec2Isabelle.thy ===== *)
theory Spec2Isabelle
  imports Admin_Properties Lease_Properties Record_Spec Mint_Simulation
begin

text \<open>
  This library models \<^verbatim>\<open>vault-plugin-secrets-salesforce\<close>, a secrets engine for HashiCorp Vault that
  issues OAuth access tokens of Salesforce orgs, and proves what makes it correct and safe.

  \<^bold>\<open>The program.\<close> An operator stores the connection of an org under \<^verbatim>\<open>config/<name>\<close>
  (\<^verbatim>\<open>path_config.go\<close>: endpoint, client id, secrets, TLS switches) and token-issuing roles under
  \<^verbatim>\<open>roles/<name>\<close> (\<^verbatim>\<open>path_roles.go\<close>: bound configuration, grant flow, identity, lifetimes). A client
  reads \<^verbatim>\<open>creds/<name>\<close> (\<^verbatim>\<open>path_creds.go\<close>): a fresh token of the per-role cache (\<^verbatim>\<open>cache.go\<close>) is
  served at once; otherwise a token is minted under the role's lock by a request to the token
  endpoint (\<^verbatim>\<open>client.go\<close>), with the client secret or with a signed assertion (\<^verbatim>\<open>jwt.go\<close>), and cached.
  Rotation (\<^verbatim>\<open>path_rotate.go\<close>) and the lease operations (\<^verbatim>\<open>secret_access_token.go\<close>) end a token's
  life. The host of the token endpoint is checked against an allowlist (\<^verbatim>\<open>hostcheck.go\<close>) when a
  configuration is written. Writes drop the tokens minted under what they change. \<^verbatim>\<open>backend.go\<close>
  registers the paths.

  \<^bold>\<open>The model.\<close> An operation is a function on the state of the plugin, the record \<open>engine\<close>: the
  outside world, the memo table of RSA keys and the log. It returns \<open>gerror + value\<close>, as Go returns
  a value and an error; a user mistake is an \<open>ErrorResponse\<close>. Every raise and early return of the
  source is a branch. What is not the plugin's own code (the storage and the field data of the Vault
  SDK, its lock pool, the JSON codec of stored records, the JWT library, the network, clock, random
  numbers) is a field of the record \<open>platform\<close>, an argument of every operation that uses it.

  \<^item> \<open>Prelude\<close>, and the parts of Go's standard library that decide behaviour: \<open>Go_Strings\<close>, \<open>Go_Time\<close>
    (64-bit durations that wrap, RFC 3339), \<open>Go_Net\<close> (\<^verbatim>\<open>net.ParseIP\<close>), \<open>Go_Url\<close> (\<^verbatim>\<open>url.Parse\<close>, form
    encoding), \<open>Go_Json\<close> (\<^verbatim>\<open>json.Unmarshal\<close> into a struct, the encoder's strings).
  \<^item> \<open>Hostcheck\<close> (\<^verbatim>\<open>hostcheck.go\<close>); \<open>Platform\<close> (the structs of all files, errors, responses, the
    platform); \<open>Store\<close> (\<^verbatim>\<open>getConfig\<close>, \<^verbatim>\<open>getRole\<close>, \<^verbatim>\<open>cache.go\<close>); \<open>Config\<close> (\<^verbatim>\<open>path_config.go\<close>); \<open>Roles\<close>
    (\<^verbatim>\<open>path_roles.go\<close>); \<open>Jwt\<close> (\<^verbatim>\<open>jwt.go\<close>); \<open>Client\<close> (\<^verbatim>\<open>client.go\<close>); \<open>Creds\<close> (\<^verbatim>\<open>path_creds.go\<close>);
    \<open>Lease\<close> (\<^verbatim>\<open>path_rotate.go\<close>, \<^verbatim>\<open>secret_access_token.go\<close>, the revocation of \<^verbatim>\<open>cache.go\<close>); \<open>Backend\<close>
    (\<^verbatim>\<open>backend.go\<close>, \<^verbatim>\<open>path_info.go\<close>, the dispatch, the transition system of the running plugin).
    Definitions have the names of the Go functions. A long function is cut where its comments cut it:
    \<^verbatim>\<open>pathConfigWrite\<close> into \<open>baseConfig\<close>, \<open>applyConfigFields\<close>, \<open>checkConfig\<close>, \<open>logConfigTransitions\<close>
    and \<open>storeConfig\<close>; \<^verbatim>\<open>issueToken\<close> into \<open>acquireMintLock\<close>, \<open>issueUnderLock\<close>, \<open>issueByMint\<close> and
    \<open>mintFailed\<close>; and so on.
  \<^item> \<open>Mint_Lock\<close>: any number of concurrent calls of \<^verbatim>\<open>issueToken\<close> for a role as a step relation, one
    step per access to the cache, the clock, the lock and the endpoint, with faults and interference.
    \<open>Mint_Simulation\<close>: each call of the functional model is a run of it, restricted to the faults and
    the interference its platform has and emitting the history of the call.
  \<^item> \<open>Record_Spec\<close>: the abstract machine of configurations, roles and cached tokens, whose step is one
    request.
  \<^item> \<open>Mock_Server\<close> (\<^verbatim>\<open>internal/sftest/mock_server.go\<close>), \<open>Test_Platform\<close> and \<open>Scenario\<close>: a platform with
    storage in memory and the mock as the network, and the states of a first configuration and role.
    The mock reads the form of a request as \<^verbatim>\<open>r.ParseForm\<close> does, by its content type.

  \<^bold>\<open>Contracts.\<close> What the plugin relies on is stated as locales: \<open>barrier\<close> (the storage keeps what is
  put, JSON keeps valid text, nothing else touches the storage), \<open>observed\<close> (the history of requests,
  waits and locks grows as they happen, the clock does not go back, an error of the environment is not
  an OAuth error of the endpoint), \<open>serial\<close> (no other request runs while this one waits for a lock) and
  \<open>token_cache\<close>, the interface of the cache, which \<open>barrier\<close> provides for the model's own operations
  (sublocale \<open>tc\<close>). The others are interpreted on the test platform (\<open>test_storage\<close>, \<open>test_events\<close>,
  \<open>test_serial\<close>), so they can be met, by the very endpoint the tests of the plugin use.

  \<^bold>\<open>What is shown.\<close>

  \<^item> The running plugin (this theory): secrets go to validated hosts, the invariant of all records,
    the refinement of the abstract machine, the routes, the wire format.
  \<^item> \<open>Admin_Properties\<close>: what the writes, reads and deletions of configurations and roles store,
    reveal and refuse, and what the re-supply guard lets through; the durations of an update.
  \<^item> \<open>Token_Properties\<close>: the schedule of attempts and waits, the classification of errors, what either
    grant flow sends, what a credential read returns, the fast path, the behaviour under failures.
  \<^item> \<open>Lease_Properties\<close>: how long a token is fresh, the reply that decides a request, the refusal that
    purges, end-to-end runs against the mock, rotation, revocation, renewal.
  \<^item> \<open>Hostcheck\<close>: what the allowlist accepts. \<open>Mint_Lock\<close>: mutual exclusion, one mint per burst while
    the minted token stays fresh, no deadlock, every request ends.

  \<^bold>\<open>Bounds.\<close> The retry loop runs over \<open>tokenRetryMaxAttempts = 3\<close> attempts by recursion on the number
  that is left. The JSON parser recurses on a fuel that lemma \<open>json_parse_fuel\<close> shows to be enough for
  every input; its nesting limit is the library's. Durations are integers kept in the signed 64-bit
  range by \<open>wrap64\<close>; times are unbounded nanoseconds. A request of \<open>Mint_Lock\<close> takes at most 16 steps.

  \<^bold>\<open>Not modelled.\<close> The executable \<^verbatim>\<open>cmd/vault-plugin-secrets-salesforce/main.go\<close> and \<^verbatim>\<open>Factory\<close>, which
  only start the SDK; the body limit of 10 MB of \<^verbatim>\<open>r.ParseForm\<close>; help and log texts and the text of \<^verbatim>\<open>salesforceError.Error\<close> (an error is a
  value, a log line an event); \<^verbatim>\<open>Close\<close> of the mock. A nil and an empty list of scopes are one value.
  The redirects an HTTP client follows by itself are the library's: what is shown of the requests of
  the plugin is about those it hands to the client. Concurrent requests of different kinds are covered
  for \<^verbatim>\<open>issueToken\<close> only (\<open>Mint_Lock\<close>, with the others as its environment); the other theories let one
  request run at a time.
\<close>

section \<open>The running plugin\<close>




text \<open>
  C2. The invariant of the plugin: in every reachable state each stored configuration has a login
  URL, a client id and a token endpoint the allowlist accepts; each stored role passes the checks
  of \<^verbatim>\<open>validateRole\<close>; each cached token has an access token; and the memo table of parsed keys
  agrees with the library.
\<close>

theorem reachable_states_ok:
  assumes "serial P view trace clk" "reachable P view s"
  shows "configs_ok P view s \<and> roles_ok P view s \<and> tokens_ok P view s \<and> key_cache_ok P s"
  using serial.reachable_ok [OF assms] by (simp add: plugin_ok_def)

theorem reachable_states_ok_witness: "configs_ok test_platform test_view with_role"
  using reachable_states_ok [OF test_serial.serial_axioms scenario_reachable(3)] by simp

text \<open>
  C3. Refinement: every step of the running plugin, whatever fails in it, is on the records one
  request of the abstract machine. So one step stores at most one configuration, which is
  acceptable, or one role, which passes the checks, has the material for its grant flow and keeps
  the identity of a role it replaces; it issues a token only to an existing role whose
  configuration exists; and it drops no tokens but those of the role, or of the roles bound to the
  configuration, that it works on.
\<close>

theorem plugin_refines_records:
  assumes "serial P view trace clk" "reachable P view s" "step P view s s'"
  shows "spec_request (config_ok P) (recordsOf P view s) (recordsOf P view s')"
  using serial.step_records [OF assms(1,3)] serial.reachable_ok [OF assms(1,2)] by (simp add: plugin_ok_def)

theorem plugin_refines_records_witness:
  "spec_request (config_ok test_platform) (recordsOf test_platform test_view configured)
     (recordsOf test_platform test_view with_role)
   \<and> rRoles (recordsOf test_platform test_view with_role) = [''app'' \<mapsto> app_role]"
  using plugin_refines_records [OF test_serial.serial_axioms scenario_reachable(2)
      step.request [OF scenario_data_text(2) request_step(2)]] with_role_contents(2) by simp

section \<open>Dispatch\<close>

text \<open>
  C37. The table of paths: what each operation on each path of the plugin reaches, with the name in
  the path as the name the handler works on. \<^verbatim>\<open>token/\<close> is an alias of \<^verbatim>\<open>creds/\<close>, the rotation of a
  role is not taken for a role named with a slash, credentials can only be read, and an operation
  a path does not list is not supported.
\<close>

theorem routes_reach_handlers:
  assumes "barrier P view" "GenericName P n"
  shows "\<forall>op. route P op (''config/'' @ n) = (case op of
        CreateOperation \<Rightarrow> Some (n, pathConfigWrite P) | UpdateOperation \<Rightarrow> Some (n, pathConfigWrite P)
      | ReadOperation \<Rightarrow> Some (n, pathConfigRead P) | DeleteOperation \<Rightarrow> Some (n, pathConfigDelete P)
      | ListOperation \<Rightarrow> None)
    \<and> route P op (''roles/'' @ n) = (case op of
        CreateOperation \<Rightarrow> Some (n, pathRoleWrite P) | UpdateOperation \<Rightarrow> Some (n, pathRoleWrite P)
      | ReadOperation \<Rightarrow> Some (n, pathRoleRead P) | DeleteOperation \<Rightarrow> Some (n, pathRoleDelete P)
      | ListOperation \<Rightarrow> None)
    \<and> route P op (''roles/'' @ n @ ''/rotate'') = (if op = UpdateOperation then Some (n, pathRotate P) else None)
    \<and> route P op (''creds/'' @ n) = (if op = ReadOperation then Some (n, pathCredsRead P) else None)
    \<and> route P op (''token/'' @ n) = (if op = ReadOperation then Some (n, pathCredsRead P) else None)
    \<and> route P op ''info'' = (if op = ReadOperation then Some ([], \<lambda>_. pathInfoRead) else None)
    \<and> route P op ''config'' = (if op = ListOperation then Some ([], \<lambda>_. pathConfigList P) else None)
    \<and> route P op ''config/'' = (if op = ListOperation then Some ([], \<lambda>_. pathConfigList P) else None)
    \<and> route P op ''roles'' = (if op = ListOperation then Some ([], \<lambda>_. pathRoleList P) else None)
    \<and> route P op ''roles/'' = (if op = ListOperation then Some ([], \<lambda>_. pathRoleList P) else None)"
    (is "\<forall>op. ?table op")
proof
  fix op
  have n: "n \<noteq> []" "CHR ''/'' \<notin> set n" using barrier.generic_name [OF assms] by auto
  have slash: "\<not> GenericName P (n @ ''/rotate'')" "\<not> GenericName P []" using barrier.generic_name [OF assms(1)] by fastforce+
  have config: "route P op (''config/'' @ n) = map_option (Pair n) (map_of (Operations (pathConfig P ! 0)) op)"
    and role: "route P op (''roles/'' @ n) = map_option (Pair n) (map_of (Operations (pathRoles P ! 0)) op)"
    and creds: "route P op (''creds/'' @ n) = map_option (Pair n) (map_of (Operations (pathCreds P ! 0)) op)"
    and token: "route P op (''token/'' @ n) = map_option (Pair n) (map_of (Operations (pathCreds P ! 1)) op)"
    and rotate: "route P op (''roles/'' @ n @ ''/rotate'')
      = map_option (Pair n) (map_of (Operations (pathRotatePaths P ! 0)) op)"
    and info: "route P op ''info'' = map_option (Pair []) (map_of (Operations (pathInfo ! 0)) op)"
    and list: "route P op ''config'' = map_option (Pair []) (map_of (Operations (pathConfig P ! 1)) op)"
      "route P op ''config/'' = map_option (Pair []) (map_of (Operations (pathConfig P ! 1)) op)"
      "route P op ''roles'' = map_option (Pair []) (map_of (Operations (pathRoles P ! 1)) op)"
      "route P op ''roles/'' = map_option (Pair []) (map_of (Operations (pathRoles P ! 1)) op)"
    using assms(2) n slash by (simp_all add: route_def path_tables match_path_def Let_def)
  show "?table op"
    unfolding config role creds token rotate info list
    by (cases op) (simp_all add: path_tables)
qed

theorem routes_reach_handlers_witness:
  "route test_platform UpdateOperation ''roles/app/rotate'' = Some (''app'', pathRotate test_platform)
    \<and> route test_platform DeleteOperation ''config/app'' = Some (''app'', pathConfigDelete test_platform)"
proof -
  have "GenericName test_platform ''app''" by (simp add: byte_class_defs)
  from routes_reach_handlers [OF test_storage.barrier_axioms this, rule_format, of UpdateOperation]
    routes_reach_handlers [OF test_storage.barrier_axioms this, rule_format, of DeleteOperation]
  show ?thesis by simp
qed

section \<open>The wire format\<close>

text \<open>
  C33. What the endpoint writes is what the plugin reads: a token response that the mock encodes
  is decoded to the same token, instance URL and scope, whatever characters they hold, and an
  OAuth error to the same code and description.
\<close>

theorem token_response_roundtrip:
  assumes "ValidString tok" "tok \<noteq> []" "ValidString url" "ValidString sc"
    and "length (encodeTokenResponse tok url sc) \<le> max_body"
    and "ValidString code" "ValidString desc"
  shows "readTokenResponse \<lparr>Status = 200, ResponseBody = Inr (encodeTokenResponse tok url sc)\<rparr>
      = Inr \<lparr>AccessToken = tok, InstanceURL = url, TokenType = ''Bearer'', Scope = sc, ExpiresIn = 0\<rparr>
    \<and> parseTokenError status (encodeObject [(''error'', code), (''error_description'', desc)])
      = OAuthError \<lparr>StatusCode = status, Code = code, Description = desc\<rparr>"
  using readTokenResponse_mock [OF assms(1-5)] parseTokenError_mock [OF assms(6,7)] by simp

theorem token_response_roundtrip_witness:
  "readTokenResponse \<lparr>Status = 200, ResponseBody = Inr (encodeTokenResponse ''tok'' mock_url ''api'')\<rparr>
    = Inr \<lparr>AccessToken = ''tok'', InstanceURL = mock_url, TokenType = ''Bearer'', Scope = ''api'', ExpiresIn = 0\<rparr>"
proof -
  have "ValidString ''tok''" "ValidString mock_url" "ValidString ''api''"
    "length (encodeTokenResponse ''tok'' mock_url ''api'') \<le> 200"
    by code_simp+
  moreover have "(200 :: nat) \<le> max_body" by (simp add: max_body_def)
  ultimately show ?thesis
    using token_response_roundtrip [of "''tok''" mock_url "''api''" "''api''" "''api''"] by simp
qed

end
